theory Spec2Isabelle
  imports Complex_Main "HOL-Library.Word" "HOL-Library.Sublist" "HOL-Library.Log_Nat"
begin

section \<open>JavaScript values\<close>

subsection \<open>Strings\<close>

text \<open>
  A JavaScript string is a sequence of UTF-16 code units. String literals of the source are
  ASCII and are written \<open>str ''...''\<close>.
\<close>

type_synonym jsstring = "16 word list"

definition str :: "string \<Rightarrow> jsstring" where
  "str s = map of_char s"

text \<open>
  \<open>String.prototype.trim\<close> strips the code units that ECMAScript calls WhiteSpace or
  LineTerminator from both ends: TAB, LF, VT, FF, CR, SP, NBSP, the other space separators
  of Unicode (all in the basic plane), LS, PS and the byte order mark.
\<close>

definition js_whitespace :: "16 word \<Rightarrow> bool" where
  "js_whitespace c \<longleftrightarrow> c \<in> {0x9, 0xA, 0xB, 0xC, 0xD, 0x20, 0xA0, 0x1680,
      0x2000, 0x2001, 0x2002, 0x2003, 0x2004, 0x2005, 0x2006, 0x2007, 0x2008, 0x2009, 0x200A,
      0x2028, 0x2029, 0x202F, 0x205F, 0x3000, 0xFEFF}"

definition trim :: "jsstring \<Rightarrow> jsstring" where
  "trim s = rev (dropWhile js_whitespace (rev (dropWhile js_whitespace s)))"

subsection \<open>Numbers\<close>

text \<open>
  A JavaScript number is an IEEE-754 double. A finite double is represented by its exact
  rational value (the two zeros are one value, as they are for \<open>===\<close>, \<open><\<close> and
  \<open>JSON.stringify\<close>). Every finite double is such a rational, so what holds for all
  rationals holds for the doubles. The only arithmetic of the program is \<open>maxId + 1\<close>,
  the addition of doubles: the exact sum rounded to the nearest double, a tie to the one
  with the even significand, and to an infinity from \<open>2^1024 - 2^970\<close> on.
\<close>

datatype jsnum = NaN | PosInf | NegInf | Fin rat

fun isFinite :: "jsnum \<Rightarrow> bool" where
  "isFinite (Fin x) = True"
| "isFinite n = False"

fun isInteger :: "jsnum \<Rightarrow> bool" where
  "isInteger (Fin x) = (of_int \<lfloor>x\<rfloor> = x)"
| "isInteger n = False"

fun js_lt :: "jsnum \<Rightarrow> jsnum \<Rightarrow> bool" where
  "js_lt NaN b = False"
| "js_lt a NaN = False"
| "js_lt (Fin x) (Fin y) = (x < y)"
| "js_lt PosInf b = False"
| "js_lt a PosInf = True"
| "js_lt a NegInf = False"
| "js_lt NegInf b = True"

definition js_gt :: "jsnum \<Rightarrow> jsnum \<Rightarrow> bool" where
  "js_gt a b = js_lt b a"

definition js_le :: "jsnum \<Rightarrow> jsnum \<Rightarrow> bool" where
  "js_le a b = (a \<noteq> NaN \<and> b \<noteq> NaN \<and> (js_lt a b \<or> a = b))"

text \<open>
  The rounding of a rational to a double. The doubles are the numbers \<open>m * 2^e\<close> with
  \<open>m\<close> an integer of at most 53 bits and \<open>e\<close> from \<open>-1074\<close> to \<open>971\<close>; \<open>floor_log2 x\<close> is
  the exponent of the leading bit of a positive \<open>x\<close>.
\<close>

definition round_half_even :: "rat \<Rightarrow> int" where
  "round_half_even x =
     (let f = \<lfloor>x\<rfloor>; r = x - of_int f
      in if r < 1 / 2 then f else if 1 / 2 < r then f + 1 else if even f then f else f + 1)"

definition floor_log2 :: "rat \<Rightarrow> int" where
  "floor_log2 x =
     (case quotient_of x of
        (p, q) \<Rightarrow> (let k = bitlen p - bitlen q in if 2 powi k \<le> x then k else k - 1))"

definition to_double :: "rat \<Rightarrow> jsnum" where
  "to_double x =
     (if x = 0 then Fin 0
      else
        (let a = \<bar>x\<bar>;
             e = max (floor_log2 a - 52) (- 1074);
             m = round_half_even (a / 2 powi e);
             v = of_int m * 2 powi e
         in if 2 ^ 1024 \<le> v then (if 0 < x then PosInf else NegInf)
            else Fin (if 0 < x then v else - v)))"

fun js_add :: "jsnum \<Rightarrow> jsnum \<Rightarrow> jsnum" where
  "js_add NaN b = NaN"
| "js_add a NaN = NaN"
| "js_add (Fin x) (Fin y) = to_double (x + y)"
| "js_add PosInf NegInf = NaN"
| "js_add NegInf PosInf = NaN"
| "js_add PosInf b = PosInf"
| "js_add NegInf b = NegInf"
| "js_add a PosInf = PosInf"
| "js_add a NegInf = NegInf"

subsection \<open>Values\<close>

text \<open>
  The values the program handles are those of JSON, and \<open>undefined\<close>. An object is the
  list of its own properties in property order; the keys of an object are distinct
  (\<open>wf_val\<close>). An assignment to a new key appends it: the integer-like keys, which
  JavaScript orders before the others, are not among the keys the validator accepts.
  Arrays and objects are compared by what they hold: the program never compares two of
  them by reference.
\<close>

datatype jsval =
    JUndefined
  | JNull
  | JBool bool
  | JNum jsnum
  | JStr jsstring
  | JArr "jsval list"
  | JObj "(jsstring \<times> jsval) list"

datatype jstype = TUndefined | TObject | TBoolean | TNumber | TString

fun typeof :: "jsval \<Rightarrow> jstype" where
  "typeof JUndefined = TUndefined"
| "typeof JNull = TObject"
| "typeof (JBool b) = TBoolean"
| "typeof (JNum n) = TNumber"
| "typeof (JStr s) = TString"
| "typeof (JArr xs) = TObject"
| "typeof (JObj kvs) = TObject"

fun truthy :: "jsval \<Rightarrow> bool" where
  "truthy JUndefined = False"
| "truthy JNull = False"
| "truthy (JBool b) = b"
| "truthy (JNum n) = (n \<noteq> NaN \<and> n \<noteq> Fin 0)"
| "truthy (JStr s) = (s \<noteq> [])"
| "truthy (JArr xs) = True"
| "truthy (JObj kvs) = True"

fun nullish :: "jsval \<Rightarrow> bool" where
  "nullish JUndefined = True"
| "nullish JNull = True"
| "nullish v = False"

fun isArray :: "jsval \<Rightarrow> bool" where
  "isArray (JArr xs) = True"
| "isArray v = False"

fun wf_val :: "jsval \<Rightarrow> bool" where
  "wf_val (JArr xs) = (\<forall>x \<in> set xs. wf_val x)"
| "wf_val (JObj kvs) = (distinct (map fst kvs) \<and> (\<forall>v \<in> set (map snd kvs). wf_val v))"
| "wf_val v = True"

text \<open>\<open>a === b\<close> where one side is a number or a boolean.\<close>

fun strict_eq_num :: "jsval \<Rightarrow> jsnum \<Rightarrow> bool" where
  "strict_eq_num (JNum m) n = (m \<noteq> NaN \<and> n \<noteq> NaN \<and> m = n)"
| "strict_eq_num v n = False"

fun strict_eq_bool :: "jsval \<Rightarrow> bool \<Rightarrow> bool" where
  "strict_eq_bool (JBool a) b = (a = b)"
| "strict_eq_bool v b = False"

subsection \<open>Errors\<close>

text \<open>
  An exception is a value: a file system error with its \<open>code\<close>, the \<open>TypeError\<close> of a
  property access on \<open>null\<close> or \<open>undefined\<close> and of \<open>in\<close> on a primitive, the
  \<open>SyntaxError\<close> of \<open>JSON.parse\<close>.
\<close>

datatype error = SysError jsstring | TypeError | SyntaxError

fun code :: "error \<Rightarrow> jsstring option" where
  "code (SysError c) = Some c"
| "code e = None"

subsection \<open>Properties\<close>

text \<open>
  \<open>v.k\<close> for the keys the program reads (\<open>name\<close>, \<open>price\<close>, \<open>inStock\<close>, \<open>id\<close>):
  an own property of an object; \<open>undefined\<close> on an array, a string, a number or a boolean,
  none of which has such a property; a \<open>TypeError\<close> on \<open>null\<close> and \<open>undefined\<close>.
\<close>

fun lookup :: "(jsstring \<times> jsval) list \<Rightarrow> jsstring \<Rightarrow> jsval" where
  "lookup [] k = JUndefined"
| "lookup ((k', v) # kvs) k = (if k' = k then v else lookup kvs k)"

fun get_prop :: "jsval \<Rightarrow> jsstring \<Rightarrow> error + jsval" where
  "get_prop JUndefined k = Inl TypeError"
| "get_prop JNull k = Inl TypeError"
| "get_prop (JObj kvs) k = Inr (lookup kvs k)"
| "get_prop v k = Inr JUndefined"

text \<open>\<open>v?.k\<close>\<close>

fun opt_prop :: "jsval \<Rightarrow> jsstring \<Rightarrow> jsval" where
  "opt_prop (JObj kvs) k = lookup kvs k"
| "opt_prop v k = JUndefined"

text \<open>\<open>k in v\<close>, for the same keys: a \<open>TypeError\<close> unless \<open>v\<close> is an object or an array.\<close>

fun has_prop :: "jsstring \<Rightarrow> jsval \<Rightarrow> error + bool" where
  "has_prop k (JObj kvs) = Inr (k \<in> set (map fst kvs))"
| "has_prop k (JArr xs) = Inr False"
| "has_prop k v = Inl TypeError"

text \<open>The decimal numeral of an array index, as a property key.\<close>

fun digits :: "nat \<Rightarrow> jsstring" where
  "digits n = (if n < 10 then [of_nat (48 + n)] else digits (n div 10) @ [of_nat (48 + n mod 10)])"

definition index_key :: "nat \<Rightarrow> jsstring" where
  "index_key n = digits n"

text \<open>
  The own enumerable properties of a value, as \<open>Object.keys\<close> and the spread \<open>{...v}\<close>
  enumerate them: the properties of an object, the elements of an array and the code
  units of a string under their indices, nothing for any other value.
\<close>

fun own_entries :: "jsval \<Rightarrow> (jsstring \<times> jsval) list" where
  "own_entries (JObj kvs) = kvs"
| "own_entries (JArr xs) = zip (map index_key [0..<length xs]) xs"
| "own_entries (JStr s) = zip (map index_key [0..<length s]) (map (\<lambda>c. JStr [c]) s)"
| "own_entries v = []"

definition Object_keys :: "jsval \<Rightarrow> jsstring list" where
  "Object_keys v = map fst (own_entries v)"

text \<open>\<open>o[k] = v\<close> on the property list: an existing key keeps its place.\<close>

fun set_prop :: "(jsstring \<times> jsval) list \<Rightarrow> jsstring \<Rightarrow> jsval \<Rightarrow> (jsstring \<times> jsval) list" where
  "set_prop [] k v = [(k, v)]"
| "set_prop ((k', v') # kvs) k v = (if k' = k then (k, v) # kvs else (k', v') # set_prop kvs k v)"

text \<open>\<open>{ ...a, ...b }\<close>: the own properties of \<open>a\<close>, then those of \<open>b\<close> assigned in order.\<close>

definition spread :: "jsval \<Rightarrow> jsval \<Rightarrow> (jsstring \<times> jsval) list" where
  "spread a b = fold (\<lambda>(k, v) kvs. set_prop kvs k v) (own_entries b) (own_entries a)"

section \<open>The validator\<close>

definition allowedKeys :: "jsstring list" where
  "allowedKeys = [str ''name'', str ''price'', str ''inStock'']"

text \<open>The loop over the keys, pushing one error for each key that is not allowed.\<close>

fun push_unknown :: "jsstring list \<Rightarrow> jsstring list \<Rightarrow> jsstring list" where
  "push_unknown [] errors = errors"
| "push_unknown (k # keys) errors =
     push_unknown keys (if k \<notin> set allowedKeys then errors @ [str ''Unknown field: '' @ k] else errors)"

text \<open>
  The three field tests: \<open>typeof v !== 'string' || v.trim() === ''\<close>,
  \<open>typeof v !== 'number' || !Number.isFinite(v) || v < 0\<close> and \<open>typeof v !== 'boolean'\<close>.
\<close>

fun bad_name :: "jsval \<Rightarrow> bool" where
  "bad_name (JStr s) = (trim s = [])"
| "bad_name v = True"

fun bad_price :: "jsval \<Rightarrow> bool" where
  "bad_price (JNum n) = (\<not> isFinite n \<or> js_lt n (Fin 0))"
| "bad_price v = True"

fun bad_inStock :: "jsval \<Rightarrow> bool" where
  "bad_inStock (JBool b) = False"
| "bad_inStock v = True"

definition push_if :: "bool \<Rightarrow> jsstring \<Rightarrow> jsstring list \<Rightarrow> jsstring list" where
  "push_if c msg errors = (if c then errors @ [msg] else errors)"

definition validateProductInput :: "jsval \<Rightarrow> bool \<Rightarrow> error + jsstring list" where
  "validateProductInput body isPartial =
    (let errors = [];
         keys = Object_keys (if truthy body then body else JObj []);
         errors = push_unknown keys errors
     in if \<not> isPartial then
          (let errors = push_if (bad_name (opt_prop body (str ''name'')))
                          (str ''name must be a non-empty string'') errors;
               errors = push_if (bad_price (opt_prop body (str ''price'')))
                          (str ''price must be a non-negative number'') errors;
               errors = push_if (bad_inStock (opt_prop body (str ''inStock'')))
                          (str ''inStock must be a boolean'') errors
           in Inr errors)
        else
          (case has_prop (str ''name'') body of
             Inl e \<Rightarrow> Inl e
           | Inr has_name \<Rightarrow>
               (let errors = push_if (has_name \<and> bad_name (opt_prop body (str ''name'')))
                               (str ''name must be a non-empty string'') errors
                in case has_prop (str ''price'') body of
                     Inl e \<Rightarrow> Inl e
                   | Inr has_price \<Rightarrow>
                       (let errors = push_if (has_price \<and> bad_price (opt_prop body (str ''price'')))
                                       (str ''price must be a non-negative number'') errors
                        in case has_prop (str ''inStock'') body of
                             Inl e \<Rightarrow> Inl e
                           | Inr has_inStock \<Rightarrow>
                               Inr (push_if (has_inStock \<and> bad_inStock (opt_prop body (str ''inStock'')))
                                      (str ''inStock must be a boolean'') errors)))))"

section \<open>The store\<close>

text \<open>
  \<open>JSON.parse\<close> and \<open>JSON.stringify\<close> belong to the runtime, not to the program, and
  the text of a file is represented by what \<open>readProducts\<close> can observe of it: the empty
  string, a string of white space only, a string that \<open>JSON.parse\<close> rejects, or a string
  that \<open>JSON.parse\<close> maps to a value.
\<close>

datatype file_text = Empty | Blank | Malformed | Encoded jsval

text \<open>\<open>!data\<close> and \<open>data.trim() === ''\<close>\<close>

definition is_empty_text :: "file_text \<Rightarrow> bool" where
  "is_empty_text data = (data = Empty)"

definition trims_to_empty :: "file_text \<Rightarrow> bool" where
  "trims_to_empty data = (data = Empty \<or> data = Blank)"

fun JSON_parse :: "file_text \<Rightarrow> error + jsval" where
  "JSON_parse (Encoded v) = Inr v"
| "JSON_parse data = Inl SyntaxError"

text \<open>
  \<open>JSON.stringify\<close> writes a text that parses to the value it was given, except for what
  JSON cannot express: a number that is not finite becomes \<open>null\<close>, \<open>undefined\<close> becomes
  \<open>null\<close> in an array and its property is left out of an object.
\<close>

fun to_json :: "jsval \<Rightarrow> jsval" where
  "to_json (JNum n) = (if isFinite n then JNum n else JNull)"
| "to_json (JArr xs) = JArr (map (\<lambda>x. if x = JUndefined then JNull else to_json x) xs)"
| "to_json (JObj kvs) =
     JObj (map (\<lambda>kv. (fst kv, to_json (snd kv))) (filter (\<lambda>kv. snd kv \<noteq> JUndefined) kvs))"
| "to_json v = v"

definition JSON_stringify :: "jsval \<Rightarrow> file_text" where
  "JSON_stringify v = Encoded (to_json v)"

text \<open>
  The file system holds the data file and the temporary file beside it; \<open>None\<close> is a file
  that does not exist. What the file system does to one request is given with the request:
  an error of the read other than a missing file, an error of the write with what the
  failed write leaves at the temporary path, an error of the rename.
\<close>

record fs =
  data_file :: "file_text option"
  tmp_file :: "file_text option"

record io =
  read_error :: "error option"
  write_error :: "error option"
  torn_tmp :: "file_text option"
  rename_error :: "error option"

definition ENOENT :: error where
  "ENOENT = SysError (str ''ENOENT'')"

definition fs_readFile :: "io \<Rightarrow> fs \<Rightarrow> error + file_text" where
  "fs_readFile env files =
     (case read_error env of
        Some err \<Rightarrow> Inl err
      | None \<Rightarrow> (case data_file files of None \<Rightarrow> Inl ENOENT | Some data \<Rightarrow> Inr data))"

definition readProducts :: "io \<Rightarrow> fs \<Rightarrow> error + jsval list" where
  "readProducts env files =
     (case fs_readFile env files of
        Inl err \<Rightarrow> if code err = Some (str ''ENOENT'') then Inr [] else Inl err
      | Inr data \<Rightarrow>
          if is_empty_text data \<or> trims_to_empty data then Inr []
          else (case JSON_parse data of
                  Inl e \<Rightarrow> Inr []
                | Inr parsed \<Rightarrow> (case parsed of JArr products \<Rightarrow> Inr products | _ \<Rightarrow> Inr [])))"

definition writeProducts :: "io \<Rightarrow> fs \<Rightarrow> jsval list \<Rightarrow> error option \<times> fs" where
  "writeProducts env files products =
     (let json = JSON_stringify (JArr products)
      in case write_error env of
           Some err \<Rightarrow> (Some err, files\<lparr>tmp_file := torn_tmp env\<rparr>)
         | None \<Rightarrow>
             (let files = files\<lparr>tmp_file := Some json\<rparr>
              in case rename_error env of
                   Some renameErr \<Rightarrow> (Some renameErr, files)
                 | None \<Rightarrow> (None, files\<lparr>data_file := tmp_file files, tmp_file := None\<rparr>)))"

section \<open>The handlers\<close>

text \<open>
  A handler takes what the file system does to its request and the files, and returns its
  response and the files it leaves; requests are handled one after the other. A response
  is a status with the value given to \<open>res.json\<close>; \<open>Failed\<close> is the response of a
  \<open>catch\<close> block, with its message and the error whose message it sends; \<open>Thrown\<close> is an
  exception that leaves the handler.
\<close>

datatype response = Json nat jsval | Failed nat jsstring error | Thrown error

fun status :: "response \<Rightarrow> nat option" where
  "status (Json s v) = Some s"
| "status (Failed s m e) = Some s"
| "status (Thrown e) = None"

definition message :: "string \<Rightarrow> jsval" where
  "message m = JObj [(str ''message'', JStr (str m))]"

definition get_products :: "io \<Rightarrow> fs \<Rightarrow> response \<times> fs" where
  "get_products env files =
     (case readProducts env files of
        Inl err \<Rightarrow> (Failed 500 (str ''Failed to read products'') err, files)
      | Inr products \<Rightarrow> (Json 200 (JArr products), files))"

text \<open>\<open>p && p.inStock === true\<close>\<close>

definition is_instock :: "jsval \<Rightarrow> bool" where
  "is_instock p = (truthy p \<and> strict_eq_bool (opt_prop p (str ''inStock'')) True)"

definition get_products_instock :: "io \<Rightarrow> fs \<Rightarrow> response \<times> fs" where
  "get_products_instock env files =
     (case readProducts env files of
        Inl err \<Rightarrow> (Failed 500 (str ''Failed to read products'') err, files)
      | Inr products \<Rightarrow> (Json 200 (JArr (filter is_instock products)), files))"

text \<open>
  The \<open>reduce\<close> of the create handler, \<open>mx\<close> for the accumulator \<open>max\<close>:
  \<open>(max, p) => (typeof p.id === 'number' && p.id > max ? p.id : max)\<close>.
\<close>

fun reduce_maxId :: "jsval list \<Rightarrow> jsnum \<Rightarrow> error + jsnum" where
  "reduce_maxId [] mx = Inr mx"
| "reduce_maxId (p # products) mx =
     (case get_prop p (str ''id'') of
        Inl e \<Rightarrow> Inl e
      | Inr (JNum n) \<Rightarrow> reduce_maxId products (if js_gt n mx then n else mx)
      | Inr v \<Rightarrow> reduce_maxId products mx)"

text \<open>\<open>v.trim()\<close>: a \<open>TypeError\<close> unless \<open>v\<close> is a string.\<close>

fun call_trim :: "jsval \<Rightarrow> error + jsval" where
  "call_trim (JStr s) = Inr (JStr (trim s))"
| "call_trim v = Inl TypeError"

definition post_products :: "io \<Rightarrow> fs \<Rightarrow> jsval \<Rightarrow> response \<times> fs" where
  "post_products env files body =
     (case validateProductInput body False of
        Inl e \<Rightarrow> (Thrown e, files)
      | Inr errors \<Rightarrow>
          if errors \<noteq> [] then
            (Json 400 (JObj [(str ''message'', JStr (str ''Invalid input'')),
                             (str ''errors'', JArr (map JStr errors))]), files)
          else
            (case readProducts env files of
               Inl err \<Rightarrow> (Failed 500 (str ''Failed to save product'') err, files)
             | Inr products \<Rightarrow>
                 (case reduce_maxId products (Fin 0) of
                    Inl err \<Rightarrow> (Failed 500 (str ''Failed to save product'') err, files)
                  | Inr maxId \<Rightarrow>
                      (case call_trim (opt_prop body (str ''name'')) of
                         Inl err \<Rightarrow> (Failed 500 (str ''Failed to save product'') err, files)
                       | Inr name \<Rightarrow>
                           (let newProduct = JObj [(str ''id'', JNum (js_add maxId (Fin 1))),
                                                   (str ''name'', name),
                                                   (str ''price'', opt_prop body (str ''price'')),
                                                   (str ''inStock'', opt_prop body (str ''inStock''))];
                                products = products @ [newProduct]
                            in case writeProducts env files products of
                                 (Some err, files') \<Rightarrow>
                                   (Failed 500 (str ''Failed to save product'') err, files')
                               | (None, files') \<Rightarrow> (Json 201 newProduct, files'))))))"

text \<open>\<open>!Number.isInteger(id) || id <= 0\<close>\<close>

definition invalid_id :: "jsnum \<Rightarrow> bool" where
  "invalid_id n = (\<not> isInteger n \<or> js_le n (Fin 0))"

text \<open>\<open>products.findIndex(p => p && p.id === id)\<close>, \<open>None\<close> for \<open>-1\<close>.\<close>

definition has_id :: "jsnum \<Rightarrow> jsval \<Rightarrow> bool" where
  "has_id n p = (truthy p \<and> strict_eq_num (opt_prop p (str ''id'')) n)"

fun findIndex :: "('a \<Rightarrow> bool) \<Rightarrow> 'a list \<Rightarrow> nat option" where
  "findIndex P [] = None"
| "findIndex P (x # xs) = (if P x then Some 0 else map_option Suc (findIndex P xs))"

text \<open>
  The merge of the update handler: \<open>{ ...products[idx], ...req.body }\<close>, then the name
  trimmed if it is a string.
\<close>

definition merge_update :: "jsval \<Rightarrow> jsval \<Rightarrow> jsval" where
  "merge_update existing body =
     (let updated = spread existing body
      in case lookup updated (str ''name'') of
           JStr s \<Rightarrow> JObj (set_prop updated (str ''name'') (JStr (trim s)))
         | _ \<Rightarrow> JObj updated)"

text \<open>
  The handlers of \<open>PUT\<close> and \<open>DELETE\<close> take the number \<open>n = Number(req.params.id)\<close>,
  the \<open>id\<close> of the source.
\<close>

definition put_products :: "io \<Rightarrow> fs \<Rightarrow> jsnum \<Rightarrow> jsval \<Rightarrow> response \<times> fs" where
  "put_products env files n body =
     (if invalid_id n then (Json 400 (message ''Invalid id''), files)
      else
        (case validateProductInput body True of
           Inl e \<Rightarrow> (Thrown e, files)
         | Inr errors \<Rightarrow>
             if errors \<noteq> [] then
               (Json 400 (JObj [(str ''message'', JStr (str ''Invalid input'')),
                                (str ''errors'', JArr (map JStr errors))]), files)
             else
               (case readProducts env files of
                  Inl err \<Rightarrow> (Failed 500 (str ''Failed to update product'') err, files)
                | Inr products \<Rightarrow>
                    (case findIndex (has_id n) products of
                       None \<Rightarrow> (Json 404 (message ''Product not found''), files)
                     | Some idx \<Rightarrow>
                         (let updated = merge_update (products ! idx) body;
                              products = products[idx := updated]
                          in case writeProducts env files products of
                               (Some err, files') \<Rightarrow>
                                 (Failed 500 (str ''Failed to update product'') err, files')
                             | (None, files') \<Rightarrow> (Json 200 updated, files'))))))"

text \<open>\<open>products.filter(p => p && p.id !== id)\<close>\<close>

definition keeps :: "jsnum \<Rightarrow> jsval \<Rightarrow> bool" where
  "keeps n p = (truthy p \<and> \<not> strict_eq_num (opt_prop p (str ''id'')) n)"

definition delete_products :: "io \<Rightarrow> fs \<Rightarrow> jsnum \<Rightarrow> response \<times> fs" where
  "delete_products env files n =
     (if invalid_id n then (Json 400 (message ''Invalid id''), files)
      else
        (case readProducts env files of
           Inl err \<Rightarrow> (Failed 500 (str ''Failed to delete product'') err, files)
         | Inr products \<Rightarrow>
             (let lengthBefore = length products;
                  remaining = filter (keeps n) products
              in if length remaining = lengthBefore then
                   (Json 404 (message ''Product not found''), files)
                 else
                   (case writeProducts env files remaining of
                      (Some err, files') \<Rightarrow>
                        (Failed 500 (str ''Failed to delete product'') err, files')
                    | (None, files') \<Rightarrow>
                        (Json 200 (message ''Product deleted successfully''), files')))))"

section \<open>The specification\<close>

subsection \<open>The file system without failures, and the empty store\<close>

text \<open>No failure of the file system.\<close>

definition no_faults :: io where
  "no_faults = \<lparr>read_error = None, write_error = None, torn_tmp = None, rename_error = None\<rparr>"

definition fs_empty :: fs where
  "fs_empty = \<lparr>data_file = None, tmp_file = None\<rparr>"

subsection \<open>The rules of the validator\<close>

text \<open>
  The rules as the specification words them: \<open>name\<close> is a string that is not empty once
  trimmed, \<open>price\<close> is a finite number that is not negative, \<open>inStock\<close> is a boolean. The
  errors of the three fields come in that order.
\<close>

fun name_rule :: "jsval \<Rightarrow> bool" where
  "name_rule (JStr s) = (trim s \<noteq> [])"
| "name_rule v = False"

fun price_rule :: "jsval \<Rightarrow> bool" where
  "price_rule (JNum (Fin x)) = (0 \<le> x)"
| "price_rule v = False"

fun inStock_rule :: "jsval \<Rightarrow> bool" where
  "inStock_rule (JBool b) = True"
| "inStock_rule v = False"

definition unknown_field :: "jsstring \<Rightarrow> jsstring" where
  "unknown_field k = str ''Unknown field: '' @ k"

definition field_errors :: "(jsstring \<times> jsval) list \<Rightarrow> jsstring list" where
  "field_errors kvs =
     (if name_rule (lookup kvs (str ''name'')) then [] else [str ''name must be a non-empty string''])
     @ (if price_rule (lookup kvs (str ''price'')) then [] else [str ''price must be a non-negative number''])
     @ (if inStock_rule (lookup kvs (str ''inStock'')) then [] else [str ''inStock must be a boolean''])"

subsection \<open>Records and products\<close>

text \<open>A record whose \<open>inStock\<close> field is the boolean \<open>true\<close>.\<close>

fun inStock_is_true :: "jsval \<Rightarrow> bool" where
  "inStock_is_true (JObj kvs) = (lookup kvs (str ''inStock'') = JBool True)"
| "inStock_is_true v = False"

text \<open>A record whose \<open>id\<close> is the number \<open>n\<close>.\<close>

fun record_with_id :: "jsnum \<Rightarrow> jsval \<Rightarrow> bool" where
  "record_with_id n (JObj kvs) = (lookup kvs (str ''id'') = JNum n)"
| "record_with_id n v = False"

text \<open>A value that JSON can express: no \<open>undefined\<close> in it, and every number finite.\<close>

fun json_exact :: "jsval \<Rightarrow> bool" where
  "json_exact JUndefined = False"
| "json_exact (JNum n) = isFinite n"
| "json_exact (JArr xs) = (\<forall>x \<in> set xs. json_exact x)"
| "json_exact (JObj kvs) = (\<forall>v \<in> set (map snd kvs). json_exact v)"
| "json_exact v = True"

text \<open>
  The product of the data model: the keys \<open>id\<close>, \<open>name\<close>, \<open>price\<close>, \<open>inStock\<close> in that
  order, a positive integer \<open>id\<close>, a non-empty \<open>name\<close> with no white space at either end, a
  finite non-negative \<open>price\<close>, a boolean \<open>inStock\<close>.
\<close>

fun id_rule :: "jsval \<Rightarrow> bool" where
  "id_rule (JNum (Fin x)) = (of_int \<lfloor>x\<rfloor> = x \<and> 0 < x)"
| "id_rule v = False"

fun stored_name_rule :: "jsval \<Rightarrow> bool" where
  "stored_name_rule (JStr s) = (s \<noteq> [] \<and> \<not> js_whitespace (hd s) \<and> \<not> js_whitespace (last s))"
| "stored_name_rule v = False"

fun valid_product :: "jsval \<Rightarrow> bool" where
  "valid_product (JObj kvs) =
     (map fst kvs = [str ''id'', str ''name'', str ''price'', str ''inStock'']
      \<and> id_rule (lookup kvs (str ''id''))
      \<and> stored_name_rule (lookup kvs (str ''name''))
      \<and> price_rule (lookup kvs (str ''price''))
      \<and> inStock_rule (lookup kvs (str ''inStock'')))"
| "valid_product v = False"

text \<open>The trim that the update handler applies to the merged \<open>name\<close> when it is a string.\<close>

definition retrim :: "jsstring \<Rightarrow> jsval \<Rightarrow> jsval" where
  "retrim k v = (if k = str ''name'' then (case v of JStr s \<Rightarrow> JStr (trim s) | _ \<Rightarrow> v) else v)"

subsection \<open>Ids\<close>

text \<open>The id of an entry of the collection, when it is a finite number.\<close>

fun entry_id :: "jsval \<Rightarrow> rat option" where
  "entry_id (JObj kvs) = (case lookup kvs (str ''id'') of JNum (Fin x) \<Rightarrow> Some x | _ \<Rightarrow> None)"
| "entry_id v = None"

definition finite_ids :: "jsval list \<Rightarrow> rat list" where
  "finite_ids products = List.map_filter entry_id products"

text \<open>\<open>max(existing ids, 0)\<close>\<close>

definition max_id :: "jsval list \<Rightarrow> rat" where
  "max_id products = Max (set (0 # finite_ids products))"

text \<open>The record that the create handler builds from the next id and a valid body.\<close>

definition new_product :: "rat \<Rightarrow> jsval \<Rightarrow> jsval" where
  "new_product i body =
     JObj [(str ''id'', JNum (Fin i)),
           (str ''name'', retrim (str ''name'') (opt_prop body (str ''name''))),
           (str ''price'', opt_prop body (str ''price'')),
           (str ''inStock'', opt_prop body (str ''inStock''))]"

text \<open>The id in the response of a create.\<close>

fun created_id :: "response \<Rightarrow> jsval" where
  "created_id (Json s v) = opt_prop v (str ''id'')"
| "created_id r = JUndefined"

text \<open>Creates in sequence, with no failure of the file system.\<close>

fun creates :: "fs \<Rightarrow> jsval list \<Rightarrow> response list \<times> fs" where
  "creates files [] = ([], files)"
| "creates files (body # bodies) =
     (case post_products no_faults files body of
        (r, files') \<Rightarrow> (case creates files' bodies of (rs, files'') \<Rightarrow> (r # rs, files'')))"

subsection \<open>Sequences of requests\<close>

text \<open>
  The requests that change the store, each with what the file system does to it, and the
  store after a sequence of them, whatever their responses.
\<close>

datatype request = Create jsval | Update jsnum jsval | Delete jsnum

fun handle :: "io \<Rightarrow> fs \<Rightarrow> request \<Rightarrow> response \<times> fs" where
  "handle env files (Create body) = post_products env files body"
| "handle env files (Update n body) = put_products env files n body"
| "handle env files (Delete n) = delete_products env files n"

fun run :: "fs \<Rightarrow> (io \<times> request) list \<Rightarrow> fs" where
  "run files [] = files"
| "run files (r # rs) = run (snd (handle (fst r) files (snd r))) rs"

text \<open>The body of a request is a value whose objects have distinct keys.\<close>

fun wf_request :: "request \<Rightarrow> bool" where
  "wf_request (Create body) = wf_val body"
| "wf_request (Update n body) = wf_val body"
| "wf_request (Delete n) = True"

text \<open>The number of create requests in a sequence.\<close>

fun is_create :: "request \<Rightarrow> bool" where
  "is_create (Create body) = True"
| "is_create (Update n body) = False"
| "is_create (Delete n) = False"

definition creates_in :: "(io \<times> request) list \<Rightarrow> nat" where
  "creates_in requests = length (filter (\<lambda>r. is_create (snd r)) requests)"

text \<open>The persisted collection: what \<open>readProducts\<close> returns when the read succeeds.\<close>

definition collection :: "fs \<Rightarrow> jsval list" where
  "collection files = (case readProducts no_faults files of Inr products \<Rightarrow> products | Inl e \<Rightarrow> [])"

definition product_id :: "jsval \<Rightarrow> jsval" where
  "product_id p = opt_prop p (str ''id'')"

definition valid_collection :: "jsval list \<Rightarrow> bool" where
  "valid_collection products =
     ((\<forall>p \<in> set products. valid_product p) \<and> distinct (map product_id products))"

subsection \<open>Sample data\<close>

definition product_A :: jsval where
  "product_A = JObj [(str ''id'', JNum (Fin 1)), (str ''name'', JStr (str ''A'')),
                     (str ''price'', JNum (Fin 5)), (str ''inStock'', JBool True)]"

definition product_A7 :: jsval where
  "product_A7 = JObj [(str ''id'', JNum (Fin 1)), (str ''name'', JStr (str ''A'')),
                      (str ''price'', JNum (Fin 7)), (str ''inStock'', JBool True)]"

definition fs_A :: fs where
  "fs_A = \<lparr>data_file = Some (Encoded (JArr [product_A])), tmp_file = None\<rparr>"

definition body_A :: jsval where
  "body_A = JObj [(str ''name'', JStr (str ''A'')), (str ''price'', JNum (Fin 5)),
                  (str ''inStock'', JBool True)]"

definition sample_requests :: "(io \<times> request) list" where
  "sample_requests =
     [(no_faults, Create body_A), (no_faults, Create body_A), (no_faults, Delete (Fin 2)),
      (no_faults, Update (Fin 1) (JObj [(str ''price'', JNum (Fin 7))]))]"

section \<open>Facts about numbers\<close>

lemma round_half_even_int: "round_half_even (of_int k) = k"
  by (simp add: round_half_even_def)

lemma floor_log2_le:
  assumes "0 < x"
  shows "2 powi floor_log2 x \<le> x"
proof -
  obtain p q where pq: "quotient_of x = (p, q)" by (cases "quotient_of x")
  then have q: "0 < q" by (rule quotient_of_denom_pos)
  from pq have x: "x = of_int p / of_int q" by (rule quotient_of_div)
  with assms q have p: "0 < p" by (simp add: zero_less_divide_iff)
  define k where "k = bitlen p - bitlen q"
  show ?thesis
  proof (cases "2 powi k \<le> x")
    case True
    then show ?thesis by (simp add: floor_log2_def pq k_def)
  next
    case False
    from bitlen_bounds [OF p] have lp: "2 ^ nat (bitlen p - 1) \<le> p" by simp
    from bitlen_bounds [OF q] have uq: "q < 2 ^ nat (bitlen q)" by simp
    from p have bp: "1 \<le> bitlen p" by (auto simp: bitlen_alt_def)
    have bq: "0 \<le> bitlen q" by (rule bitlen_nonneg)
    have "(2::rat) powi (k - 1) = 2 powi (bitlen p - 1) / 2 powi bitlen q"
      by (simp add: k_def power_int_diff [symmetric] algebra_simps)
    also have "\<dots> = 2 ^ nat (bitlen p - 1) / 2 ^ nat (bitlen q)"
      using bp bq by (simp add: power_int_nonneg_exp)
    also have "\<dots> \<le> of_int p / of_int q"
    proof -
      from p have a: "(0::rat) \<le> of_int p" by simp
      from lp have "(of_int (2 ^ nat (bitlen p - 1)) :: rat) \<le> of_int p" by (simp only: of_int_le_iff)
      then have b: "(2::rat) ^ nat (bitlen p - 1) \<le> of_int p" by simp
      from q have c: "(0::rat) < of_int q" by simp
      from uq have "q \<le> 2 ^ nat (bitlen q)" by simp
      then have "(of_int q :: rat) \<le> of_int (2 ^ nat (bitlen q))" by (simp only: of_int_le_iff)
      then have d: "(of_int q :: rat) \<le> 2 ^ nat (bitlen q)" by simp
      show ?thesis by (rule frac_le [OF a b c d])
    qed
    finally have "2 powi (k - 1) \<le> x" by (simp only: x)
    with False show ?thesis by (simp add: floor_log2_def pq k_def)
  qed
qed

lemma to_double_int:
  assumes "0 < n" and "n \<le> 2 ^ 53"
  shows "to_double (of_int n) = Fin (of_int n)"
proof -
  define x :: rat where "x = of_int n"
  from assms have x0: "0 < x" and x53: "x \<le> 2 ^ 53" by (simp_all add: x_def of_int_le_numeral_power_cancel_iff)
  define fl where "fl = floor_log2 x"
  define e where "e = max (fl - 52) (- 1074)"
  have lo: "2 powi fl \<le> x" unfolding fl_def by (rule floor_log2_le [OF x0])
  have fl53: "fl \<le> 53"
  proof (rule ccontr)
    assume "\<not> fl \<le> 53"
    then have "54 \<le> fl" by simp
    then have "(2::rat) powi 54 \<le> 2 powi fl" by (intro power_int_increasing) simp_all
    with lo x53 show False by (simp add: power_int_def)
  qed
  have small: "\<not> (2::rat) ^ 1024 \<le> x"
  proof
    assume "(2::rat) ^ 1024 \<le> x"
    with x53 have "(2::rat) ^ 1024 \<le> 2 ^ 53" by simp
    then show False by simp
  qed
  have v: "of_int (round_half_even (x / 2 powi e)) * 2 powi e = x"
  proof (cases "e \<le> 0")
    case True
    have pe: "(2::rat) powi e = 1 / 2 ^ nat (- e)"
      using True by (simp add: power_int_def field_simps)
    have "x / 2 powi e = of_int (n * 2 ^ nat (- e))"
      by (simp add: pe x_def)
    then have "round_half_even (x / 2 powi e) = n * 2 ^ nat (- e)"
      by (simp only: round_half_even_int)
    then show ?thesis by (simp add: pe x_def)
  next
    case False
    with fl53 have e1: "e = 1" and "fl = 53" by (simp_all add: e_def max_def split: if_splits)
    with lo have "2 ^ 53 \<le> x" by (simp add: power_int_def)
    with x53 have x: "x = 2 ^ 53" by simp
    have "x / 2 powi e = of_int (2 ^ 52)" by (simp add: x e1)
    then have "round_half_even (x / 2 powi e) = 2 ^ 52" by (simp only: round_half_even_int)
    then show ?thesis by (simp add: e1 x)
  qed
  have "to_double x = Fin x"
    using x0 small v by (simp add: to_double_def Let_def fl_def [symmetric] e_def [symmetric])
  then show ?thesis by (simp only: x_def)
qed

lemma js_add_safe:
  assumes "of_int \<lfloor>m\<rfloor> = m" and "0 \<le> m" and "m < 2 ^ 53"
  shows "js_add (Fin m) (Fin 1) = Fin (m + 1)"
proof -
  define n where "n = \<lfloor>m\<rfloor> + 1"
  have "(of_int n :: rat) = of_int \<lfloor>m\<rfloor> + 1" by (simp add: n_def)
  then have m: "m + 1 = of_int n" by (simp only: assms(1))
  from assms(2) have "0 \<le> \<lfloor>m\<rfloor>" by simp
  then have pos: "0 < n" by (simp add: n_def)
  from assms(3) have "\<lfloor>m\<rfloor> < 2 ^ 53" by (simp add: floor_less_iff)
  then have le: "n \<le> 2 ^ 53" by (simp add: n_def)
  have "js_add (Fin m) (Fin 1) = to_double (of_int n)" by (simp add: m)
  also have "\<dots> = Fin (of_int n)" by (rule to_double_int [OF pos le])
  finally show ?thesis by (simp only: m)
qed

lemma js_add_0_1: "js_add (Fin 0) (Fin 1) = Fin 1"
  using js_add_safe [of 0] by simp

lemma js_add_1_1: "js_add (Fin 1) (Fin 1) = Fin 2"
  using js_add_safe [of 1] by simp

text \<open>From \<open>2^53\<close> on the sum is rounded: \<open>2^53 + 1\<close> is \<open>2^53\<close>.\<close>

lemma js_add_2_53: "js_add (Fin (2 ^ 53)) (Fin 1) = Fin (2 ^ 53)"
  by code_simp

section \<open>Facts about strings and property lists\<close>

lemma of_char_lt: "(of_char c :: nat) < 65536"
proof -
  have "(of_char c :: nat) mod 256 < 256" by simp
  then have "(of_char c :: nat) < 256" by (simp only: of_char_mod_256)
  then show ?thesis by linarith
qed

lemma unat_of_char16: "unat (of_char c :: 16 word) = of_char c"
proof -
  have "(of_char c :: 16 word) = of_nat (of_char c)" by (simp only: of_nat_of_char)
  then have "unat (of_char c :: 16 word) = unat (of_nat (of_char c :: nat) :: 16 word)" by (simp only:)
  also have "\<dots> = of_char c" using of_char_lt [of c] by (simp add: unat_of_nat take_bit_nat_eq_self)
  finally show ?thesis .
qed

lemma of_char16_eq_iff: "(of_char c :: 16 word) = of_char d \<longleftrightarrow> c = d"
proof
  assume "(of_char c :: 16 word) = of_char d"
  then have "unat (of_char c :: 16 word) = unat (of_char d :: 16 word)" by (simp only:)
  then have "(of_char c :: nat) = of_char d" by (simp only: unat_of_char16)
  then show "c = d" by (rule of_char_eqI)
qed simp

lemma str_eq_iff: "str a = str b \<longleftrightarrow> a = b"
  unfolding str_def by (simp add: map_eq_conv inj_map_eq_map inj_on_def of_char16_eq_iff)

lemma str_append: "str (a @ b) = str a @ str b"
  by (simp add: str_def)

lemma last_dropWhile: "dropWhile P xs \<noteq> [] \<Longrightarrow> last (dropWhile P xs) = last xs"
  by (induction xs) auto

lemma trim_ends:
  assumes "trim s \<noteq> []"
  shows "\<not> js_whitespace (hd (trim s)) \<and> \<not> js_whitespace (last (trim s))"
proof -
  define t where "t = dropWhile js_whitespace s"
  define u where "u = dropWhile js_whitespace (rev t)"
  have ts: "trim s = rev u" by (simp add: trim_def t_def u_def)
  with assms have u: "u \<noteq> []" by simp
  then have t: "t \<noteq> []" by (auto simp: u_def)
  have "\<not> js_whitespace (hd u)" using u unfolding u_def by (rule hd_dropWhile)
  moreover have "last u = last (rev t)" using u unfolding u_def by (rule last_dropWhile)
  moreover have "\<not> js_whitespace (hd t)" using t unfolding t_def by (rule hd_dropWhile)
  ultimately show ?thesis using u t by (simp add: ts hd_rev last_rev)
qed

lemma trim_fixed:
  assumes "s \<noteq> []" "\<not> js_whitespace (hd s)" "\<not> js_whitespace (last s)"
  shows "trim s = s"
proof -
  from assms(1,2) have a: "dropWhile js_whitespace s = s" by (cases s) auto
  from assms(1,3) have "rev s \<noteq> []" "\<not> js_whitespace (hd (rev s))" by (simp_all add: hd_rev)
  then have "dropWhile js_whitespace (rev s) = rev s" by (cases "rev s") auto
  with a show ?thesis by (simp add: trim_def)
qed

lemma trim_Nil: "trim [] = []" by (simp add: trim_def)

lemma trim_idem: "trim (trim s) = trim s"
proof (cases "trim s = []")
  case True then show ?thesis by (simp add: trim_Nil)
next
  case False
  with trim_ends [OF False] show ?thesis by (intro trim_fixed) auto
qed

lemma lookup_set_prop: "lookup (set_prop kvs k v) k' = (if k' = k then v else lookup kvs k')"
  by (induction kvs) auto

lemma keys_set_prop:
  "map fst (set_prop kvs k v) = (if k \<in> set (map fst kvs) then map fst kvs else map fst kvs @ [k])"
proof (induction kvs)
  case Nil then show ?case by simp
next
  case (Cons kv kvs)
  obtain k' v' where kv: "kv = (k', v')" by (cases kv)
  show ?case using Cons.IH by (simp add: kv)
qed

lemma lookup_absent: "k \<notin> set (map fst kvs) \<Longrightarrow> lookup kvs k = JUndefined"
  by (induction kvs) auto

lemma lookup_assign:
  "distinct (map fst b) \<Longrightarrow>
   lookup (fold (\<lambda>(k, v) kvs. set_prop kvs k v) b a) k =
     (if k \<in> set (map fst b) then lookup b k else lookup a k)"
proof (induction b arbitrary: a)
  case Nil then show ?case by simp
next
  case (Cons kv b)
  obtain k' v' where kv: "kv = (k', v')" by (cases kv)
  from Cons.prems have d: "distinct (map fst b)" and n: "k' \<notin> set (map fst b)" by (auto simp: kv)
  have "lookup (fold (\<lambda>(k, v) kvs. set_prop kvs k v) (kv # b) a) k =
        lookup (fold (\<lambda>(k, v) kvs. set_prop kvs k v) b (set_prop a k' v')) k"
    by (simp add: kv)
  also have "\<dots> = (if k \<in> set (map fst b) then lookup b k else lookup (set_prop a k' v') k)"
    by (rule Cons.IH [OF d])
  also have "\<dots> = (if k \<in> set (map fst (kv # b)) then lookup (kv # b) k else lookup a k)"
    using n by (auto simp: kv lookup_set_prop)
  finally show ?case .
qed

section \<open>Validation in full mode\<close>

lemma push_unknown_eq:
  "push_unknown keys errors = errors @ map unknown_field (filter (\<lambda>k. k \<notin> set allowedKeys) keys)"
  by (induction keys arbitrary: errors) (simp_all add: unknown_field_def)

lemma bad_name_rule: "bad_name v = (\<not> name_rule v)"
  by (cases v) simp_all

lemma bad_price_rule: "bad_price v = (\<not> price_rule v)"
proof (cases v)
  case (JNum n) then show ?thesis by (cases n) auto
qed simp_all

lemma bad_inStock_rule: "bad_inStock v = (\<not> inStock_rule v)"
  by (cases v) simp_all

lemma validate_full_object:
  "validateProductInput (JObj kvs) False =
     Inr (map unknown_field (filter (\<lambda>k. k \<notin> set allowedKeys) (map fst kvs)) @ field_errors kvs)"
  by (simp add: validateProductInput_def Object_keys_def push_unknown_eq push_if_def field_errors_def
      bad_name_rule bad_price_rule bad_inStock_rule)

lemma lookup_append_absent:
  "k \<notin> set (map fst kvs) \<Longrightarrow> lookup (kvs @ [(k, w)]) k' = (if k' = k then w else lookup kvs k')"
  by (induction kvs) auto

lemma allowed_keys_distinct:
  "str ''name'' \<noteq> str ''price''" "str ''name'' \<noteq> str ''inStock''" "str ''price'' \<noteq> str ''inStock''"
  "str ''price'' \<noteq> str ''name''" "str ''inStock'' \<noteq> str ''name''" "str ''inStock'' \<noteq> str ''price''"
  by (simp_all add: str_eq_iff)

lemma field_errors_absent_name:
  assumes "str ''name'' \<notin> set (map fst kvs)" "\<not> name_rule w"
  shows "field_errors (kvs @ [(str ''name'', w)]) = field_errors kvs"
  using assms by (simp add: field_errors_def lookup_append_absent lookup_absent allowed_keys_distinct)

lemma field_errors_absent_price:
  assumes "str ''price'' \<notin> set (map fst kvs)" "\<not> price_rule w"
  shows "field_errors (kvs @ [(str ''price'', w)]) = field_errors kvs"
  using assms by (simp add: field_errors_def lookup_append_absent lookup_absent allowed_keys_distinct)

lemma field_errors_absent_inStock:
  assumes "str ''inStock'' \<notin> set (map fst kvs)" "\<not> inStock_rule w"
  shows "field_errors (kvs @ [(str ''inStock'', w)]) = field_errors kvs"
  using assms by (simp add: field_errors_def lookup_append_absent lookup_absent allowed_keys_distinct)

lemma validate_full_absent:
  assumes "k \<in> set allowedKeys" "field_errors (kvs @ [(k, w)]) = field_errors kvs"
  shows "validateProductInput (JObj (kvs @ [(k, w)])) False = validateProductInput (JObj kvs) False"
  using assms by (simp add: validate_full_object)

text \<open>
  Claim C5. In full mode the validator reports, for every input object, one error for each
  key that is not allowed, in the order of the keys, and then one error for each of
  \<open>name\<close>, \<open>price\<close> and \<open>inStock\<close>, in that order, whose rule fails. A field that
  is absent gives the same errors as the field present with a value of the wrong type. The
  body \<open>{foo: 1}\<close> gives the four errors of \<open>foo\<close>, \<open>name\<close>, \<open>price\<close> and \<open>inStock\<close>.
\<close>

theorem validate_full_exhaustive:
  "validateProductInput (JObj kvs) False =
     Inr (map unknown_field (filter (\<lambda>k. k \<notin> set allowedKeys) (map fst kvs)) @ field_errors kvs)
   \<and> (str ''name'' \<notin> set (map fst kvs) \<and> \<not> name_rule w \<longrightarrow>
        validateProductInput (JObj (kvs @ [(str ''name'', w)])) False = validateProductInput (JObj kvs) False)
   \<and> (str ''price'' \<notin> set (map fst kvs) \<and> \<not> price_rule w \<longrightarrow>
        validateProductInput (JObj (kvs @ [(str ''price'', w)])) False = validateProductInput (JObj kvs) False)
   \<and> (str ''inStock'' \<notin> set (map fst kvs) \<and> \<not> inStock_rule w \<longrightarrow>
        validateProductInput (JObj (kvs @ [(str ''inStock'', w)])) False = validateProductInput (JObj kvs) False)
   \<and> validateProductInput (JObj [(str ''foo'', JNum (Fin 1))]) False =
        Inr [str ''Unknown field: foo'', str ''name must be a non-empty string'',
             str ''price must be a non-negative number'', str ''inStock must be a boolean'']"
proof (intro conjI impI)
  show "validateProductInput (JObj kvs) False =
     Inr (map unknown_field (filter (\<lambda>k. k \<notin> set allowedKeys) (map fst kvs)) @ field_errors kvs)"
    by (rule validate_full_object)
next
  assume "str ''name'' \<notin> set (map fst kvs) \<and> \<not> name_rule w"
  then show "validateProductInput (JObj (kvs @ [(str ''name'', w)])) False = validateProductInput (JObj kvs) False"
    by (intro validate_full_absent field_errors_absent_name) (simp_all add: allowedKeys_def)
next
  assume "str ''price'' \<notin> set (map fst kvs) \<and> \<not> price_rule w"
  then show "validateProductInput (JObj (kvs @ [(str ''price'', w)])) False = validateProductInput (JObj kvs) False"
    by (intro validate_full_absent field_errors_absent_price) (simp_all add: allowedKeys_def)
next
  assume "str ''inStock'' \<notin> set (map fst kvs) \<and> \<not> inStock_rule w"
  then show "validateProductInput (JObj (kvs @ [(str ''inStock'', w)])) False = validateProductInput (JObj kvs) False"
    by (intro validate_full_absent field_errors_absent_inStock) (simp_all add: allowedKeys_def)
next
  show "validateProductInput (JObj [(str ''foo'', JNum (Fin 1))]) False =
        Inr [str ''Unknown field: foo'', str ''name must be a non-empty string'',
             str ''price must be a non-negative number'', str ''inStock must be a boolean'']"
    by (simp add: validate_full_object field_errors_def unknown_field_def allowedKeys_def str_eq_iff
        str_append [symmetric])
qed

text \<open>The theorem at the object \<open>{foo: 1}\<close>, with and without a field of the wrong type.\<close>

theorem validate_full_exhaustive_witness:
  "str ''name'' \<notin> set (map fst [(str ''foo'', JNum (Fin 1))]) \<and> \<not> name_rule (JNum (Fin 1))
   \<and> str ''price'' \<notin> set (map fst [(str ''foo'', JNum (Fin 1))]) \<and> \<not> price_rule (JStr (str ''1''))
   \<and> str ''inStock'' \<notin> set (map fst [(str ''foo'', JNum (Fin 1))]) \<and> \<not> inStock_rule (JNum (Fin 1))
   \<and> validateProductInput (JObj [(str ''foo'', JNum (Fin 1)), (str ''name'', JNum (Fin 1))]) False
       = validateProductInput (JObj [(str ''foo'', JNum (Fin 1))]) False
   \<and> validateProductInput (JObj [(str ''foo'', JNum (Fin 1)), (str ''price'', JStr (str ''1''))]) False
       = validateProductInput (JObj [(str ''foo'', JNum (Fin 1))]) False
   \<and> validateProductInput (JObj [(str ''foo'', JNum (Fin 1)), (str ''inStock'', JNum (Fin 1))]) False
       = validateProductInput (JObj [(str ''foo'', JNum (Fin 1))]) False"
  using validate_full_exhaustive [of "[(str ''foo'', JNum (Fin 1))]" "JNum (Fin 1)"]
        validate_full_exhaustive [of "[(str ''foo'', JNum (Fin 1))]" "JStr (str ''1'')"]
  by (simp add: str_eq_iff)

section \<open>The in-stock listing\<close>

lemma strict_eq_bool_True: "strict_eq_bool v True = (v = JBool True)"
  by (cases v) auto

lemma is_instock_iff: "is_instock p = inStock_is_true p"
  by (cases p) (simp_all add: is_instock_def strict_eq_bool_True)

text \<open>
  Claim C7. For every loaded collection the in-stock listing answers with the entries that
  are records whose \<open>inStock\<close> is the boolean \<open>true\<close>, in their order in the collection,
  and leaves the files as they are; a record whose \<open>inStock\<close> is \<open>1\<close> or \<open>"yes"\<close> is
  not one of them.
\<close>

theorem instock_filter:
  "(readProducts env files = Inr products \<longrightarrow>
      get_products_instock env files = (Json 200 (JArr (filter inStock_is_true products)), files)
      \<and> subseq (filter inStock_is_true products) products)
   \<and> \<not> inStock_is_true (JObj [(str ''inStock'', JNum (Fin 1))])
   \<and> \<not> inStock_is_true (JObj [(str ''inStock'', JStr (str ''yes''))])
   \<and> inStock_is_true (JObj [(str ''inStock'', JBool True)])"
proof -
  have "is_instock = inStock_is_true" by (rule ext) (rule is_instock_iff)
  then show ?thesis by (simp add: get_products_instock_def subseq_filter_left)
qed

text \<open>The listing of a collection with \<open>inStock\<close> values \<open>1\<close>, \<open>true\<close> and \<open>"yes"\<close>, and a \<open>null\<close> entry.\<close>

theorem instock_filter_witness:
  "readProducts no_faults
     \<lparr>data_file = Some (Encoded (JArr [JObj [(str ''inStock'', JNum (Fin 1))],
                                        JObj [(str ''inStock'', JBool True)], JNull,
                                        JObj [(str ''inStock'', JStr (str ''yes''))]])),
      tmp_file = None\<rparr>
   = Inr [JObj [(str ''inStock'', JNum (Fin 1))], JObj [(str ''inStock'', JBool True)], JNull,
          JObj [(str ''inStock'', JStr (str ''yes''))]]
   \<and> get_products_instock no_faults
     \<lparr>data_file = Some (Encoded (JArr [JObj [(str ''inStock'', JNum (Fin 1))],
                                        JObj [(str ''inStock'', JBool True)], JNull,
                                        JObj [(str ''inStock'', JStr (str ''yes''))]])),
      tmp_file = None\<rparr>
   = (Json 200 (JArr [JObj [(str ''inStock'', JBool True)]]),
     \<lparr>data_file = Some (Encoded (JArr [JObj [(str ''inStock'', JNum (Fin 1))],
                                        JObj [(str ''inStock'', JBool True)], JNull,
                                        JObj [(str ''inStock'', JStr (str ''yes''))]])),
      tmp_file = None\<rparr>)"
proof -
  have h: "readProducts no_faults
     \<lparr>data_file = Some (Encoded (JArr [JObj [(str ''inStock'', JNum (Fin 1))],
                                        JObj [(str ''inStock'', JBool True)], JNull,
                                        JObj [(str ''inStock'', JStr (str ''yes''))]])),
      tmp_file = None\<rparr>
   = Inr [JObj [(str ''inStock'', JNum (Fin 1))], JObj [(str ''inStock'', JBool True)], JNull,
          JObj [(str ''inStock'', JStr (str ''yes''))]]"
    by (simp add: readProducts_def fs_readFile_def no_faults_def is_empty_text_def trims_to_empty_def)
  show ?thesis
    using h instock_filter [of no_faults _ "[JObj [(str ''inStock'', JNum (Fin 1))],
         JObj [(str ''inStock'', JBool True)], JNull, JObj [(str ''inStock'', JStr (str ''yes''))]]"]
    by simp
qed

section \<open>Reading the store\<close>

lemma readProducts_cases:
  "readProducts env files =
     (case read_error env of
        Some err \<Rightarrow> if code err = Some (str ''ENOENT'') then Inr [] else Inl err
      | None \<Rightarrow>
          (case data_file files of
             Some (Encoded (JArr products)) \<Rightarrow> Inr products
           | _ \<Rightarrow> Inr []))"
  by (simp add: readProducts_def fs_readFile_def ENOENT_def is_empty_text_def trims_to_empty_def
      split: option.splits file_text.splits jsval.splits)

text \<open>
  Claim C2. \<open>readProducts\<close> returns the empty list when the file does not exist, when its
  text is empty or white space, when \<open>JSON.parse\<close> rejects it, and when it parses to a
  value that is not an array. It fails exactly when the read fails with an error whose
  code is not \<open>ENOENT\<close>, and then with that error.
\<close>

theorem readProducts_total:
  "(read_error env = None \<and> data_file files = None \<longrightarrow> readProducts env files = Inr [])
   \<and> (read_error env = None \<and> data_file files = Some data \<and> (is_empty_text data \<or> trims_to_empty data)
        \<longrightarrow> readProducts env files = Inr [])
   \<and> (read_error env = None \<and> data_file files = Some data \<and> JSON_parse data = Inl e'
        \<longrightarrow> readProducts env files = Inr [])
   \<and> (read_error env = None \<and> data_file files = Some data \<and> JSON_parse data = Inr v \<and> \<not> isArray v
        \<longrightarrow> readProducts env files = Inr [])
   \<and> (read_error env = Some e \<and> code e = Some (str ''ENOENT'') \<longrightarrow> readProducts env files = Inr [])
   \<and> (read_error env = Some e \<and> code e \<noteq> Some (str ''ENOENT'') \<longrightarrow> readProducts env files = Inl e)
   \<and> (readProducts env files = Inl e \<longleftrightarrow> read_error env = Some e \<and> code e \<noteq> Some (str ''ENOENT''))"
proof (intro conjI impI)
  assume "read_error env = None \<and> data_file files = Some data \<and> JSON_parse data = Inl e'"
  then show "readProducts env files = Inr []"
    by (cases data) (simp_all add: readProducts_cases)
next
  assume "read_error env = None \<and> data_file files = Some data \<and> JSON_parse data = Inr v \<and> \<not> isArray v"
  then show "readProducts env files = Inr []"
    by (cases data; cases v) (simp_all add: readProducts_cases)
next
  show "readProducts env files = Inl e \<longleftrightarrow> read_error env = Some e \<and> code e \<noteq> Some (str ''ENOENT'')"
    by (auto simp: readProducts_cases split: option.splits file_text.splits jsval.splits if_splits)
qed (auto simp: readProducts_cases is_empty_text_def trims_to_empty_def)

text \<open>The theorem at a missing file, four unusable texts, and the errors \<open>ENOENT\<close> and \<open>EACCES\<close>.\<close>

theorem readProducts_total_witness:
  "readProducts no_faults fs_empty = Inr []
   \<and> readProducts no_faults \<lparr>data_file = Some Empty, tmp_file = None\<rparr> = Inr []
   \<and> readProducts no_faults \<lparr>data_file = Some Blank, tmp_file = None\<rparr> = Inr []
   \<and> readProducts no_faults \<lparr>data_file = Some Malformed, tmp_file = None\<rparr> = Inr []
   \<and> readProducts no_faults \<lparr>data_file = Some (Encoded (JObj [])), tmp_file = None\<rparr> = Inr []
   \<and> readProducts (no_faults\<lparr>read_error := Some (SysError (str ''ENOENT''))\<rparr>) fs_empty = Inr []
   \<and> readProducts (no_faults\<lparr>read_error := Some (SysError (str ''EACCES''))\<rparr>) fs_empty
       = Inl (SysError (str ''EACCES''))"
  using readProducts_total [where env = no_faults and files = fs_empty]
    readProducts_total [where env = no_faults and files = "\<lparr>data_file = Some Empty, tmp_file = None\<rparr>"
      and data = Empty]
    readProducts_total [where env = no_faults and files = "\<lparr>data_file = Some Blank, tmp_file = None\<rparr>"
      and data = Blank]
    readProducts_total [where env = no_faults and files = "\<lparr>data_file = Some Malformed, tmp_file = None\<rparr>"
      and data = Malformed and e' = SyntaxError]
    readProducts_total [where env = no_faults
      and files = "\<lparr>data_file = Some (Encoded (JObj [])), tmp_file = None\<rparr>"
      and data = "Encoded (JObj [])" and v = "JObj []"]
    readProducts_total [where env = "no_faults\<lparr>read_error := Some (SysError (str ''ENOENT''))\<rparr>"
      and files = fs_empty and e = "SysError (str ''ENOENT'')"]
    readProducts_total [where env = "no_faults\<lparr>read_error := Some (SysError (str ''EACCES''))\<rparr>"
      and files = fs_empty and e = "SysError (str ''EACCES'')"]
  by (simp add: no_faults_def fs_empty_def is_empty_text_def trims_to_empty_def str_eq_iff)

section \<open>Requests rejected before the store is touched\<close>

lemma post_400:
  assumes "status (fst (post_products env files body)) = Some 400"
  shows "snd (post_products env files body) = files"
    and "fst (post_products env' files' body) = fst (post_products env files body)"
  using assms
  by (auto simp: post_products_def Let_def split: sum.splits if_splits prod.splits option.splits)

lemma put_400:
  assumes "status (fst (put_products env files n body)) = Some 400"
  shows "snd (put_products env files n body) = files"
    and "fst (put_products env' files' n body) = fst (put_products env files n body)"
  using assms
  by (auto simp: put_products_def Let_def split: sum.splits if_splits prod.splits option.splits)

text \<open>
  Claim C10. When the create or the update handler answers 400, the files are those it was
  given, and its response is the same for any other files and any other behaviour of the
  file system: the store is neither read nor written.
\<close>

theorem rejected_before_store:
  "(status (fst (post_products env files body)) = Some 400 \<longrightarrow>
      snd (post_products env files body) = files
      \<and> fst (post_products env' files' body) = fst (post_products env files body))
   \<and> (status (fst (put_products env files n body)) = Some 400 \<longrightarrow>
      snd (put_products env files n body) = files
      \<and> fst (put_products env' files' n body) = fst (put_products env files n body))"
  using post_400 put_400 by blast

text \<open>The theorem at a create with an unknown field, an update of id 0 and an update with a negative price.\<close>

theorem rejected_before_store_witness:
  "status (fst (post_products no_faults fs_empty (JObj [(str ''foo'', JNum (Fin 1))]))) = Some 400
   \<and> snd (post_products no_faults fs_empty (JObj [(str ''foo'', JNum (Fin 1))])) = fs_empty
   \<and> status (fst (put_products no_faults fs_empty (Fin 0) (JObj []))) = Some 400
   \<and> snd (put_products no_faults fs_empty (Fin 0) (JObj [])) = fs_empty
   \<and> status (fst (put_products no_faults fs_empty (Fin 1) (JObj [(str ''price'', JNum (Fin (- 1)))])))
       = Some 400
   \<and> snd (put_products no_faults fs_empty (Fin 1) (JObj [(str ''price'', JNum (Fin (- 1)))])) = fs_empty"
proof -
  have a: "status (fst (post_products no_faults fs_empty (JObj [(str ''foo'', JNum (Fin 1))]))) = Some 400"
    by (simp add: post_products_def validate_full_object allowedKeys_def str_eq_iff)
  have b: "status (fst (put_products no_faults fs_empty (Fin 0) (JObj []))) = Some 400"
    by (simp add: put_products_def invalid_id_def js_le_def)
  have c: "status (fst (put_products no_faults fs_empty (Fin 1) (JObj [(str ''price'', JNum (Fin (- 1)))])))
       = Some 400"
    by (simp add: put_products_def invalid_id_def js_le_def validateProductInput_def Object_keys_def
        allowedKeys_def push_if_def str_eq_iff)
  show ?thesis
    using a b c
      rejected_before_store [where env = no_faults and files = fs_empty
        and body = "JObj [(str ''foo'', JNum (Fin 1))]" and n = "Fin 0"]
      rejected_before_store [where env = no_faults and files = fs_empty
        and body = "JObj []" and n = "Fin 0"]
      rejected_before_store [where env = no_faults and files = fs_empty
        and body = "JObj [(str ''price'', JNum (Fin (- 1)))]" and n = "Fin 1"]
    by simp
qed

section \<open>Validation in partial mode of a missing body\<close>

text \<open>
  Claim C9. In partial mode the validator does not treat a body that is \<open>undefined\<close> or
  \<open>null\<close> as an empty object: \<open>'name' in body\<close> throws a \<open>TypeError\<close>, where the full
  mode reads the fields with \<open>body?.name\<close> and reports its three errors. The update handler
  calls the validator outside its \<open>try\<close>, so the exception leaves the handler and no
  response with status 200 is sent.
\<close>

theorem partial_validation_of_missing_body:
  "validateProductInput JUndefined True = Inl TypeError
   \<and> validateProductInput JNull True = Inl TypeError
   \<and> validateProductInput JUndefined False =
        Inr [str ''name must be a non-empty string'', str ''price must be a non-negative number'',
             str ''inStock must be a boolean'']
   \<and> put_products env files (Fin 1) JUndefined = (Thrown TypeError, files)
   \<and> put_products env files (Fin 1) JNull = (Thrown TypeError, files)"
  by (simp add: validateProductInput_def Object_keys_def push_if_def put_products_def invalid_id_def
      js_le_def)

section \<open>Delete, and requests for an id that is absent\<close>

lemma findIndex_None: "findIndex P xs = None \<longleftrightarrow> (\<forall>x \<in> set xs. \<not> P x)"
  by (induction xs) auto

lemma findIndex_Some: "findIndex P xs = Some i \<Longrightarrow> i < length xs \<and> P (xs ! i)"
proof (induction xs arbitrary: i)
  case Nil then show ?case by simp
next
  case (Cons x xs)
  then show ?case by (cases "P x") (auto simp: nth_Cons')
qed

lemma length_filter_eq: "length (filter P xs) = length xs \<longleftrightarrow> (\<forall>x \<in> set xs. P x)"
proof (induction xs)
  case Nil then show ?case by simp
next
  case (Cons x xs)
  have le: "length (filter P xs) \<le> length xs" by (rule length_filter_le)
  show ?case
  proof (cases "P x")
    case True
    with Cons show ?thesis by simp
  next
    case False
    from le have "length (filter P xs) \<noteq> Suc (length xs)" by arith
    with False show ?thesis by simp
  qed
qed

lemma valid_id_Fin: "\<not> invalid_id n \<Longrightarrow> \<exists>x. n = Fin x \<and> 0 < x \<and> of_int \<lfloor>x\<rfloor> = x"
  by (cases n) (auto simp: invalid_id_def js_le_def)

lemma has_id_iff: "n \<noteq> NaN \<Longrightarrow> has_id n p = record_with_id n p"
proof (cases p)
  case (JObj kvs)
  assume "n \<noteq> NaN"
  then show ?thesis by (cases "lookup kvs (str ''id'')") (auto simp: has_id_def JObj)
qed (simp_all add: has_id_def)

lemma keeps_iff: "keeps n p = (truthy p \<and> \<not> has_id n p)"
  by (auto simp: keeps_def has_id_def)

lemma writeProducts_ok:
  "write_error env = None \<Longrightarrow> rename_error env = None \<Longrightarrow>
   writeProducts env files products =
     (None, files\<lparr>data_file := Some (JSON_stringify (JArr products)), tmp_file := None\<rparr>)"
  by (simp add: writeProducts_def)

lemma writeProducts_data_file:
  "data_file (snd (writeProducts env files products)) =
     (if write_error env = None \<and> rename_error env = None
      then Some (JSON_stringify (JArr products)) else data_file files)"
  by (simp add: writeProducts_def Let_def split: option.splits)

text \<open>
  On a loaded collection whose entries are all truthy, as are those of every collection
  the service wrote, and for every positive integer id: if no record has that id, delete
  answers 404 and leaves the files as they are, and so does an update with a valid body;
  if some record has that id and the write succeeds, delete answers 200 and the data file
  holds the collection without the records of that id, the others in their order. A delete
  that answers 404 never changes the files.
\<close>

lemma delete_removes_matching:
  assumes "\<not> invalid_id n" and "readProducts env files = Inr products"
    and "\<forall>p \<in> set products. truthy p"
  shows "((\<forall>p \<in> set products. \<not> record_with_id n p) \<longrightarrow>
            delete_products env files n = (Json 404 (message ''Product not found''), files))
       \<and> ((\<exists>p \<in> set products. record_with_id n p) \<and> write_error env = None \<and> rename_error env = None \<longrightarrow>
            delete_products env files n =
              (Json 200 (message ''Product deleted successfully''),
               files\<lparr>data_file := Some (JSON_stringify (JArr (filter (\<lambda>p. \<not> record_with_id n p) products))),
                      tmp_file := None\<rparr>))
       \<and> (status (fst (delete_products env files n)) = Some 404 \<longrightarrow>
            snd (delete_products env files n) = files)
       \<and> ((\<forall>p \<in> set products. \<not> record_with_id n p) \<and> validateProductInput body True = Inr [] \<longrightarrow>
            put_products env files n body = (Json 404 (message ''Product not found''), files))"
proof -
  from assms(1) have nn: "n \<noteq> NaN" by (auto dest: valid_id_Fin)
  have k: "filter (keeps n) products = filter (\<lambda>p. \<not> record_with_id n p) products"
    using assms(3) by (intro filter_cong) (auto simp: keeps_iff has_id_iff [OF nn])
  have len: "length (filter (\<lambda>p. \<not> record_with_id n p) products) = length products
      \<longleftrightarrow> (\<forall>p \<in> set products. \<not> record_with_id n p)"
    by (rule length_filter_eq)
  have a: "(\<forall>p \<in> set products. \<not> record_with_id n p) \<longrightarrow>
            delete_products env files n = (Json 404 (message ''Product not found''), files)"
    using assms(1,2) len by (simp add: delete_products_def k)
  have b: "(\<exists>p \<in> set products. record_with_id n p) \<and> write_error env = None \<and> rename_error env = None \<longrightarrow>
            delete_products env files n =
              (Json 200 (message ''Product deleted successfully''),
               files\<lparr>data_file := Some (JSON_stringify (JArr (filter (\<lambda>p. \<not> record_with_id n p) products))),
                      tmp_file := None\<rparr>)"
    using assms(1,2) len by (auto simp: delete_products_def k writeProducts_ok)
  have c: "status (fst (delete_products env files n)) = Some 404 \<longrightarrow>
            snd (delete_products env files n) = files"
    by (auto simp: delete_products_def Let_def split: sum.splits if_splits prod.splits option.splits)
  have d: "(\<forall>p \<in> set products. \<not> record_with_id n p) \<and> validateProductInput body True = Inr [] \<longrightarrow>
            put_products env files n body = (Json 404 (message ''Product not found''), files)"
  proof
    assume h: "(\<forall>p \<in> set products. \<not> record_with_id n p) \<and> validateProductInput body True = Inr []"
    then have "findIndex (has_id n) products = None"
      by (simp add: findIndex_None has_id_iff [OF nn])
    with h assms(1,2) show "put_products env files n body = (Json 404 (message ''Product not found''), files)"
      by (simp add: put_products_def)
  qed
  from a b c d show ?thesis by blast
qed

text \<open>The lemma at the collection of one product with id 1, for the ids 1 and 2.\<close>

lemma delete_removes_matching_at_product_A:
  "\<not> invalid_id (Fin 1) \<and> \<not> invalid_id (Fin 2)
   \<and> readProducts no_faults fs_A = Inr [product_A]
   \<and> truthy product_A
   \<and> \<not> record_with_id (Fin 2) product_A
   \<and> record_with_id (Fin 1) product_A
   \<and> validateProductInput (JObj []) True = Inr []
   \<and> delete_products no_faults fs_A (Fin 2) = (Json 404 (message ''Product not found''), fs_A)
   \<and> put_products no_faults fs_A (Fin 2) (JObj []) = (Json 404 (message ''Product not found''), fs_A)
   \<and> delete_products no_faults fs_A (Fin 1) =
       (Json 200 (message ''Product deleted successfully''),
        \<lparr>data_file = Some (Encoded (JArr [])), tmp_file = None\<rparr>)"
proof -
  have i: "\<not> invalid_id (Fin 1)" "\<not> invalid_id (Fin 2)"
    by (simp_all add: invalid_id_def js_le_def)
  have r: "readProducts no_faults fs_A = Inr [product_A]"
    by (simp add: readProducts_cases no_faults_def fs_A_def)
  have t: "\<forall>p \<in> set [product_A]. truthy p"
    by (simp add: product_A_def)
  have v: "validateProductInput (JObj []) True = Inr []"
    by (simp add: validateProductInput_def Object_keys_def push_if_def)
  have w: "write_error no_faults = None \<and> rename_error no_faults = None"
    by (simp add: no_faults_def)
  show ?thesis
    using i r t v w
      delete_removes_matching [OF i(2) r t, of "JObj []"]
      delete_removes_matching [OF i(1) r t, of "JObj []"]
    by (simp add: product_A_def fs_A_def JSON_stringify_def)
qed

text \<open>
  Claim C6. The delete handler tells whether a record was removed by comparing the length
  of the collection before and after the filter \<open>p && p.id !== id\<close>, and that filter drops
  every falsy entry as well. In the collection \<open>[null]\<close> no record has the id 1, yet the
  delete of id 1 removes the entry, answers 200 and writes the collection \<open>[]\<close> where
  a 404 with the file left as it is was due. The update of id 1, whose search
  \<open>p && p.id === id\<close> has the same guard, answers 404 on that collection and leaves the
  file as it is.
\<close>

theorem delete_drops_null_entries:
  "readProducts no_faults \<lparr>data_file = Some (Encoded (JArr [JNull])), tmp_file = None\<rparr> = Inr [JNull]
   \<and> \<not> record_with_id (Fin 1) JNull
   \<and> delete_products no_faults \<lparr>data_file = Some (Encoded (JArr [JNull])), tmp_file = None\<rparr> (Fin 1)
     = (Json 200 (message ''Product deleted successfully''),
        \<lparr>data_file = Some (Encoded (JArr [])), tmp_file = None\<rparr>)
   \<and> put_products no_faults \<lparr>data_file = Some (Encoded (JArr [JNull])), tmp_file = None\<rparr> (Fin 1)
       (JObj [])
     = (Json 404 (message ''Product not found''),
        \<lparr>data_file = Some (Encoded (JArr [JNull])), tmp_file = None\<rparr>)"
  by (simp add: delete_products_def put_products_def readProducts_cases no_faults_def invalid_id_def
      js_le_def keeps_def has_id_def writeProducts_def JSON_stringify_def validateProductInput_def
      Object_keys_def push_if_def)

section \<open>Writing the store and reading it back\<close>

lemma to_json_exact: "json_exact v \<Longrightarrow> to_json v = v"
proof (induction v)
  case (JArr xs)
  have "map (\<lambda>x. if x = JUndefined then JNull else to_json x) xs = map (\<lambda>x. x) xs"
  proof (rule map_cong [OF refl])
    fix x assume x: "x \<in> set xs"
    with JArr.prems have e: "json_exact x" by simp
    then have "x \<noteq> JUndefined" by auto
    with JArr.IH [OF x e] show "(if x = JUndefined then JNull else to_json x) = x" by simp
  qed
  then show ?case by simp
next
  case (JObj kvs)
  have ex: "json_exact (snd kv)" if "kv \<in> set kvs" for kv
    using JObj.prems that by simp
  have f: "filter (\<lambda>kv. snd kv \<noteq> JUndefined) kvs = kvs"
  proof (rule filter_True)
    show "\<forall>kv \<in> set kvs. snd kv \<noteq> JUndefined"
    proof
      fix kv assume "kv \<in> set kvs"
      from ex [OF this] show "snd kv \<noteq> JUndefined" by auto
    qed
  qed
  have "map (\<lambda>kv. (fst kv, to_json (snd kv))) kvs = map (\<lambda>kv. kv) kvs"
  proof (rule map_cong [OF refl])
    fix kv assume kv: "kv \<in> set kvs"
    have "snd kv \<in> Basic_BNFs.snds kv" by (cases kv) simp
    from JObj.IH [OF kv this ex [OF kv]] show "(fst kv, to_json (snd kv)) = kv" by simp
  qed
  with f show ?case by simp
qed simp_all

lemma lookup_in_values: "lookup kvs k \<noteq> JUndefined \<Longrightarrow> lookup kvs k \<in> set (map snd kvs)"
  by (induction kvs) auto

lemma id_rule_exact: "id_rule v \<Longrightarrow> json_exact v"
proof (cases v)
  case (JNum n) assume "id_rule v" with JNum show ?thesis by (cases n) auto
qed simp_all

lemma price_rule_exact: "price_rule v \<Longrightarrow> json_exact v"
proof (cases v)
  case (JNum n) assume "price_rule v" with JNum show ?thesis by (cases n) auto
qed simp_all

lemma stored_name_rule_exact: "stored_name_rule v \<Longrightarrow> json_exact v"
  by (cases v) simp_all

lemma inStock_rule_exact: "inStock_rule v \<Longrightarrow> json_exact v"
  by (cases v) simp_all

lemma four_keys:
  assumes "map fst kvs = [a, b, c, d]"
  shows "\<exists>va vb vc vd. kvs = [(a, va), (b, vb), (c, vc), (d, vd)]"
proof -
  from assms obtain p1 p2 p3 p4 where kvs: "kvs = [p1, p2, p3, p4]"
    by (auto simp: map_eq_Cons_conv)
  with assms show ?thesis by (cases p1; cases p2; cases p3; cases p4) auto
qed

lemma valid_product_shape:
  assumes "valid_product p"
  obtains v1 v2 v3 v4 where
    "p = JObj [(str ''id'', v1), (str ''name'', v2), (str ''price'', v3), (str ''inStock'', v4)]"
    "id_rule v1" "stored_name_rule v2" "price_rule v3" "inStock_rule v4"
proof (cases p)
  case (JObj kvs)
  with assms have k: "map fst kvs = [str ''id'', str ''name'', str ''price'', str ''inStock'']" by simp
  from four_keys [OF k] obtain v1 v2 v3 v4 where
    kvs: "kvs = [(str ''id'', v1), (str ''name'', v2), (str ''price'', v3), (str ''inStock'', v4)]"
    by blast
  from assms have "id_rule v1" "stored_name_rule v2" "price_rule v3" "inStock_rule v4"
    by (simp_all add: JObj kvs str_eq_iff)
  with JObj kvs that show ?thesis by blast
qed (use assms in simp_all)

lemma valid_product_exact: "valid_product p \<Longrightarrow> json_exact p"
  by (erule valid_product_shape)
    (simp add: id_rule_exact stored_name_rule_exact price_rule_exact inStock_rule_exact)

lemma stringify_exact:
  "\<forall>p \<in> set products. json_exact p \<Longrightarrow> JSON_stringify (JArr products) = Encoded (JArr products)"
  using to_json_exact [of "JArr products"] by (simp add: JSON_stringify_def)

text \<open>
  Claim C8. For every sequence of values that JSON can express, and so for every sequence
  of products of the data model: when \<open>writeProducts\<close> succeeds, a \<open>readProducts\<close> of
  the files it leaves returns the sequence it was given, unless the read itself fails.
\<close>

theorem save_load_roundtrip:
  assumes "\<forall>p \<in> set products. json_exact p \<or> valid_product p"
    and "write_error env = None" and "rename_error env = None" and "read_error env' = None"
  shows "fst (writeProducts env files products) = None
       \<and> readProducts env' (snd (writeProducts env files products)) = Inr products"
proof -
  from assms(1) have "\<forall>p \<in> set products. json_exact p" by (auto dest: valid_product_exact)
  then have "JSON_stringify (JArr products) = Encoded (JArr products)" by (rule stringify_exact)
  with assms(2-4) show ?thesis by (simp add: writeProducts_ok readProducts_cases)
qed

text \<open>The theorem at the collection of the product \<open>{id: 1, name: "A", price: 5, inStock: true}\<close>.\<close>

theorem save_load_roundtrip_witness:
  "valid_product product_A
   \<and> write_error no_faults = None \<and> rename_error no_faults = None \<and> read_error no_faults = None
   \<and> fst (writeProducts no_faults fs_empty [product_A]) = None
   \<and> readProducts no_faults (snd (writeProducts no_faults fs_empty [product_A])) = Inr [product_A]"
proof -
  have v: "valid_product product_A"
    by (simp add: product_A_def str_eq_iff js_whitespace_def str_def)
  then have a: "\<forall>p \<in> set [product_A]. json_exact p \<or> valid_product p" by simp
  have w: "write_error no_faults = None" "rename_error no_faults = None" "read_error no_faults = None"
    by (simp_all add: no_faults_def)
  from v w save_load_roundtrip [OF a w, of fs_empty] show ?thesis by simp
qed

section \<open>The merge of an update\<close>

lemma keys_assign:
  "distinct (map fst b) \<Longrightarrow>
   map fst (fold (\<lambda>(k, v) kvs. set_prop kvs k v) b a) =
     map fst a @ filter (\<lambda>k. k \<notin> set (map fst a)) (map fst b)"
proof (induction b arbitrary: a)
  case Nil then show ?case by simp
next
  case (Cons kv b)
  obtain k v where kv: "kv = (k, v)" by (cases kv)
  from Cons.prems have d: "distinct (map fst b)" and n: "k \<notin> set (map fst b)" by (auto simp: kv)
  have step: "map fst (fold (\<lambda>(k, v) kvs. set_prop kvs k v) (kv # b) a) =
        map fst (set_prop a k v) @ filter (\<lambda>x. x \<notin> set (map fst (set_prop a k v))) (map fst b)"
    using Cons.IH [OF d, of "set_prop a k v"] by (simp add: kv)
  show ?case
  proof (cases "k \<in> set (map fst a)")
    case True
    then show ?thesis using step by (simp add: keys_set_prop kv)
  next
    case False
    have "filter (\<lambda>x. x \<noteq> k \<and> x \<notin> set (map fst a)) (map fst b) =
          filter (\<lambda>x. x \<notin> set (map fst a)) (map fst b)"
      using n by (intro filter_cong) auto
    then show ?thesis using step False by (simp add: keys_set_prop kv)
  qed
qed

lemma merge_update_unfold:
  "merge_update existing body =
     JObj (case lookup (spread existing body) (str ''name'') of
             JStr s \<Rightarrow> set_prop (spread existing body) (str ''name'') (JStr (trim s))
           | _ \<Rightarrow> spread existing body)"
  by (simp add: merge_update_def Let_def split: jsval.splits)

lemma retrim_lookup:
  "lookup (case lookup m (str ''name'') of
             JStr s \<Rightarrow> set_prop m (str ''name'') (JStr (trim s))
           | _ \<Rightarrow> m) k = retrim k (lookup m k)"
  by (cases "lookup m (str ''name'')") (auto simp: lookup_set_prop retrim_def)

lemma retrim_keys:
  "map fst (case lookup m (str ''name'') of
             JStr s \<Rightarrow> set_prop m (str ''name'') (JStr (trim s))
           | _ \<Rightarrow> m) = map fst m"
proof (cases "lookup m (str ''name'')")
  case (JStr s)
  then have "str ''name'' \<in> set (map fst m)"
    using lookup_absent [of "str ''name''" m] by auto
  with JStr show ?thesis by (simp add: keys_set_prop)
qed simp_all

lemma merge_update_object:
  assumes "distinct (map fst b)"
  obtains u where "merge_update (JObj a) (JObj b) = JObj u"
    and "\<And>k. lookup u k = retrim k (if k \<in> set (map fst b) then lookup b k else lookup a k)"
    and "map fst u = map fst a @ filter (\<lambda>k. k \<notin> set (map fst a)) (map fst b)"
proof -
  define m where "m = spread (JObj a) (JObj b)"
  define u where "u = (case lookup m (str ''name'') of
             JStr s \<Rightarrow> set_prop m (str ''name'') (JStr (trim s)) | _ \<Rightarrow> m)"
  have lm: "lookup m k = (if k \<in> set (map fst b) then lookup b k else lookup a k)" for k
    unfolding m_def spread_def using lookup_assign [OF assms] by simp
  have km: "map fst m = map fst a @ filter (\<lambda>k. k \<notin> set (map fst a)) (map fst b)"
    unfolding m_def spread_def using keys_assign [OF assms] by simp
  have 1: "merge_update (JObj a) (JObj b) = JObj u"
    unfolding u_def m_def by (rule merge_update_unfold)
  have 2: "lookup u k = retrim k (if k \<in> set (map fst b) then lookup b k else lookup a k)" for k
  proof -
    have "lookup u k = retrim k (lookup m k)" unfolding u_def by (rule retrim_lookup)
    then show ?thesis by (simp only: lm)
  qed
  have 3: "map fst u = map fst a @ filter (\<lambda>k. k \<notin> set (map fst a)) (map fst b)"
  proof -
    have "map fst u = map fst m" unfolding u_def by (rule retrim_keys)
    then show ?thesis by (simp only: km)
  qed
  from 1 2 3 that show ?thesis by blast
qed

lemma has_id_object: "has_id n p \<Longrightarrow> \<exists>kvs. p = JObj kvs"
  by (cases p) (simp_all add: has_id_def)

lemma put_products_found:
  assumes "\<not> invalid_id n" and "validateProductInput body True = Inr []"
    and "readProducts env files = Inr products" and "findIndex (has_id n) products = Some idx"
    and "write_error env = None" and "rename_error env = None"
  shows "put_products env files n body =
     (Json 200 (merge_update (products ! idx) body),
      files\<lparr>data_file := Some (JSON_stringify (JArr (products[idx := merge_update (products ! idx) body]))),
             tmp_file := None\<rparr>)"
  using assms by (simp add: put_products_def Let_def writeProducts_ok)

text \<open>
  With the empty object for a body the update of a stored record succeeds: the record keeps
  its keys and its values, a \<open>name\<close> that is a string trimmed.
\<close>

lemma put_empty_object:
  assumes "\<not> invalid_id n"
    and "readProducts env files = Inr products" and "findIndex (has_id n) products = Some idx"
    and "write_error env = None" and "rename_error env = None"
  shows "\<exists>stored updated.
            products ! idx = JObj stored
          \<and> put_products env files n (JObj []) =
              (Json 200 (JObj updated),
               files\<lparr>data_file := Some (JSON_stringify (JArr (products[idx := JObj updated]))),
                      tmp_file := None\<rparr>)
          \<and> (\<forall>k. lookup updated k = retrim k (lookup stored k))
          \<and> map fst updated = map fst stored"
proof -
  have v: "validateProductInput (JObj []) True = Inr []"
    by (simp add: validateProductInput_def Object_keys_def push_if_def)
  from findIndex_Some [OF assms(3)] have "has_id n (products ! idx)" by simp
  then obtain stored where st: "products ! idx = JObj stored" by (auto dest: has_id_object)
  define updated where "updated = (case lookup stored (str ''name'') of
      JStr s \<Rightarrow> set_prop stored (str ''name'') (JStr (trim s)) | _ \<Rightarrow> stored)"
  have sp: "spread (JObj stored) (JObj []) = stored"
    by (simp add: spread_def)
  have u: "merge_update (JObj stored) (JObj []) = JObj updated"
    unfolding updated_def by (simp only: merge_update_unfold sp)
  have l': "\<forall>k. lookup updated k = retrim k (lookup stored k)"
    unfolding updated_def by (intro allI retrim_lookup)
  have k': "map fst updated = map fst stored"
    unfolding updated_def by (rule retrim_keys)
  have p: "put_products env files n (JObj []) =
      (Json 200 (JObj updated),
       files\<lparr>data_file := Some (JSON_stringify (JArr (products[idx := JObj updated]))), tmp_file := None\<rparr>)"
    using put_products_found [OF assms(1) v assms(2,3,4,5)] by (simp add: st u)
  show ?thesis by (intro exI [of _ stored] exI [of _ updated] conjI) (rule st p l' k')+
qed

lemma put_price_7:
  "put_products no_faults fs_A (Fin 1) (JObj [(str ''price'', JNum (Fin 7))]) =
     (Json 200 product_A7, \<lparr>data_file = Some (Encoded (JArr [product_A7])), tmp_file = None\<rparr>)"
  by (simp add: put_products_def invalid_id_def js_le_def validateProductInput_def Object_keys_def
      allowedKeys_def push_if_def str_eq_iff readProducts_cases no_faults_def fs_A_def product_A_def
      product_A7_def has_id_def merge_update_def spread_def writeProducts_def JSON_stringify_def
      trim_def js_whitespace_def str_def Let_def)

text \<open>
  Claim C4. An update with a valid partial body of a stored product answers 200 with the
  merged record and writes the collection with that record in the place of the stored one.
  In the merged record every key of the body has the value the body gives it, every other
  key has the value it had in the stored record, and a \<open>name\<close> that is a string is
  trimmed; the keys are those of the stored record in their order, then the new keys of
  the body. The update of \<open>{id: 1, name: "A", price: 5, inStock: true}\<close> with the body
  \<open>{price: 7}\<close> gives \<open>{id: 1, name: "A", price: 7, inStock: true}\<close>.
\<close>

theorem partial_update_merge:
  assumes "\<not> invalid_id n" and "validateProductInput (JObj props) True = Inr []"
    and "distinct (map fst props)"
    and "readProducts env files = Inr products" and "findIndex (has_id n) products = Some idx"
    and "write_error env = None" and "rename_error env = None"
  shows "(\<exists>stored updated.
            products ! idx = JObj stored
          \<and> put_products env files n (JObj props) =
              (Json 200 (JObj updated),
               files\<lparr>data_file := Some (JSON_stringify (JArr (products[idx := JObj updated]))),
                      tmp_file := None\<rparr>)
          \<and> (\<forall>k. lookup updated k =
                    retrim k (if k \<in> set (map fst props) then lookup props k else lookup stored k))
          \<and> map fst updated = map fst stored @ filter (\<lambda>k. k \<notin> set (map fst stored)) (map fst props))
       \<and> put_products no_faults fs_A (Fin 1) (JObj [(str ''price'', JNum (Fin 7))]) =
           (Json 200 product_A7, \<lparr>data_file = Some (Encoded (JArr [product_A7])), tmp_file = None\<rparr>)"
proof -
  from findIndex_Some [OF assms(5)] have "has_id n (products ! idx)" by simp
  then obtain stored where st: "products ! idx = JObj stored" by (auto dest: has_id_object)
  from merge_update_object [OF assms(3), of stored] obtain updated where
    u: "merge_update (JObj stored) (JObj props) = JObj updated"
    and l: "\<And>k. lookup updated k =
              retrim k (if k \<in> set (map fst props) then lookup props k else lookup stored k)"
    and k: "map fst updated = map fst stored @ filter (\<lambda>k. k \<notin> set (map fst stored)) (map fst props)"
    by blast
  have "put_products env files n (JObj props) =
      (Json 200 (JObj updated),
       files\<lparr>data_file := Some (JSON_stringify (JArr (products[idx := JObj updated]))), tmp_file := None\<rparr>)"
    using put_products_found [OF assms(1,2,4,5,6,7)] by (simp add: st u)
  with st l k put_price_7 show ?thesis by blast
qed

text \<open>The theorem at the update of the product with id 1 by a body with a price and a padded name.\<close>

theorem partial_update_merge_witness:
  "\<not> invalid_id (Fin 1)
   \<and> validateProductInput (JObj [(str ''price'', JNum (Fin 7)), (str ''name'', JStr (str '' B ''))]) True = Inr []
   \<and> distinct (map fst [(str ''price'', JNum (Fin 7)), (str ''name'', JStr (str '' B ''))])
   \<and> readProducts no_faults fs_A = Inr [product_A]
   \<and> findIndex (has_id (Fin 1)) [product_A] = Some 0
   \<and> write_error no_faults = None \<and> rename_error no_faults = None
   \<and> (\<exists>updated.
        put_products no_faults fs_A (Fin 1)
          (JObj [(str ''price'', JNum (Fin 7)), (str ''name'', JStr (str '' B ''))]) =
          (Json 200 (JObj updated),
           \<lparr>data_file = Some (JSON_stringify (JArr [JObj updated])), tmp_file = None\<rparr>)
        \<and> lookup updated (str ''id'') = JNum (Fin 1)
        \<and> lookup updated (str ''name'') = JStr (str ''B'')
        \<and> lookup updated (str ''price'') = JNum (Fin 7)
        \<and> lookup updated (str ''inStock'') = JBool True
        \<and> map fst updated = [str ''id'', str ''name'', str ''price'', str ''inStock''])"
proof -
  let ?props = "[(str ''price'', JNum (Fin 7)), (str ''name'', JStr (str '' B ''))]"
  have i: "\<not> invalid_id (Fin 1)"
    by (simp add: invalid_id_def js_le_def)
  have v: "validateProductInput (JObj ?props) True = Inr []"
    by (simp add: validateProductInput_def Object_keys_def allowedKeys_def push_if_def str_eq_iff
        trim_def js_whitespace_def str_def)
  have d: "distinct (map fst ?props)"
    by (simp add: str_eq_iff)
  have r: "readProducts no_faults fs_A = Inr [product_A]"
    by (simp add: readProducts_cases no_faults_def fs_A_def)
  have f: "findIndex (has_id (Fin 1)) [product_A] = Some 0"
    by (simp add: has_id_def product_A_def)
  have w: "write_error no_faults = None" "rename_error no_faults = None"
    by (simp_all add: no_faults_def)
  have t: "trim (str '' B '') = str ''B''"
    by (simp add: trim_def js_whitespace_def str_def)
  from partial_update_merge [OF i v d r f w] have
    "\<exists>stored updated. [product_A] ! 0 = JObj stored
      \<and> put_products no_faults fs_A (Fin 1) (JObj ?props) =
        (Json 200 (JObj updated),
         fs_A\<lparr>data_file := Some (JSON_stringify (JArr ([product_A][0 := JObj updated]))), tmp_file := None\<rparr>)
      \<and> (\<forall>k. lookup updated k =
        retrim k (if k \<in> set (map fst ?props) then lookup ?props k else lookup stored k))
      \<and> map fst updated = map fst stored @ filter (\<lambda>k. k \<notin> set (map fst stored)) (map fst ?props)"
    by (rule conjunct1)
  then obtain stored updated where
    s: "[product_A] ! 0 = JObj stored"
    and p: "put_products no_faults fs_A (Fin 1) (JObj ?props) =
        (Json 200 (JObj updated),
         fs_A\<lparr>data_file := Some (JSON_stringify (JArr ([product_A][0 := JObj updated]))), tmp_file := None\<rparr>)"
    and l: "\<forall>k. lookup updated k =
        retrim k (if k \<in> set (map fst ?props) then lookup ?props k else lookup stored k)"
    and k: "map fst updated = map fst stored @ filter (\<lambda>k. k \<notin> set (map fst stored)) (map fst ?props)"
    by (elim exE conjE)
  from s have st: "stored = [(str ''id'', JNum (Fin 1)), (str ''name'', JStr (str ''A'')),
                     (str ''price'', JNum (Fin 5)), (str ''inStock'', JBool True)]"
    by (simp add: product_A_def)
  have l1: "lookup updated (str ''id'') = JNum (Fin 1)"
    using l [rule_format, of "str ''id''"] by (simp add: st retrim_def str_eq_iff)
  have l2: "lookup updated (str ''name'') = JStr (str ''B'')"
    using l [rule_format, of "str ''name''"] by (simp add: st retrim_def str_eq_iff t)
  have l3: "lookup updated (str ''price'') = JNum (Fin 7)"
    using l [rule_format, of "str ''price''"] by (simp add: st retrim_def str_eq_iff)
  have l4: "lookup updated (str ''inStock'') = JBool True"
    using l [rule_format, of "str ''inStock''"] by (simp add: st retrim_def str_eq_iff)
  have l5: "map fst updated = [str ''id'', str ''name'', str ''price'', str ''inStock'']"
    by (simp add: k st str_eq_iff)
  have l6: "put_products no_faults fs_A (Fin 1) (JObj ?props) =
          (Json 200 (JObj updated),
           \<lparr>data_file = Some (JSON_stringify (JArr [JObj updated])), tmp_file = None\<rparr>)"
    using p by (simp add: fs_A_def)
  show ?thesis
    by (intro conjI exI [of _ updated]) (rule i v d r f w l1 l2 l3 l4 l5 l6)+
qed

section \<open>The id of a new product\<close>

lemma json_exact_lookup: "json_exact (JObj kvs) \<Longrightarrow> lookup kvs k = JNum n \<Longrightarrow> isFinite n"
proof -
  assume e: "json_exact (JObj kvs)" and l: "lookup kvs k = JNum n"
  from l have "lookup kvs k \<in> set (map snd kvs)" by (intro lookup_in_values) simp
  moreover from e have "\<forall>v \<in> set (map snd kvs). json_exact v" by simp
  ultimately have "json_exact (lookup kvs k)" by blast
  then show ?thesis by (simp add: l)
qed

lemma Max_absorb: "Max (set (m # x # xs)) = Max (set (max m x # xs))" for m :: rat
proof (cases "xs = []")
  case True then show ?thesis by (simp add: max.commute)
next
  case False
  have "Max (set (m # x # xs)) = max m (max x (Max (set xs)))" using False by simp
  also have "\<dots> = max (max m x) (Max (set xs))" by (simp add: max.assoc)
  also have "\<dots> = Max (set (max m x # xs))" using False by simp
  finally show ?thesis .
qed

lemma reduce_maxId_exact:
  "\<forall>p \<in> set products. json_exact p \<and> p \<noteq> JNull \<Longrightarrow>
   reduce_maxId products (Fin m) = Inr (Fin (Max (set (m # finite_ids products))))"
proof (induction products arbitrary: m)
  case Nil
  then show ?case by (simp add: finite_ids_def List.map_filter_simps)
next
  case (Cons p products)
  from Cons.prems have p: "json_exact p" "p \<noteq> JNull"
    and rest: "\<forall>p \<in> set products. json_exact p \<and> p \<noteq> JNull" by simp_all
  note IH = Cons.IH [OF rest]
  show ?case
  proof (cases p)
    case (JObj kvs)
    show ?thesis
    proof (cases "lookup kvs (str ''id'')")
      case (JNum n)
      from json_exact_lookup [OF p(1) [unfolded JObj] JNum] obtain x where n: "n = Fin x"
        by (cases n) auto
      have "reduce_maxId (p # products) (Fin m) = reduce_maxId products (Fin (max m x))"
        by (auto simp: JObj JNum n js_gt_def max_def)
      also have "\<dots> = Inr (Fin (Max (set (max m x # finite_ids products))))" by (rule IH)
      also have "Max (set (max m x # finite_ids products)) = Max (set (m # finite_ids (p # products)))"
        by (simp only: Max_absorb [symmetric]) (simp add: finite_ids_def List.map_filter_simps JObj JNum n)
      finally show ?thesis .
    qed (simp_all add: JObj IH finite_ids_def List.map_filter_simps)
  qed (use p in \<open>simp_all add: IH finite_ids_def List.map_filter_simps\<close>)
qed

lemma max_id_ge: "x \<in> set (finite_ids products) \<Longrightarrow> x \<le> max_id products"
  by (simp add: max_id_def)

lemma max_id_nonneg: "0 \<le> max_id products"
  by (simp add: max_id_def)

lemma validate_full_ok:
  assumes "validateProductInput body False = Inr []"
  obtains kvs where "body = JObj kvs" "set (map fst kvs) \<subseteq> set allowedKeys"
    "name_rule (lookup kvs (str ''name''))" "price_rule (lookup kvs (str ''price''))"
    "inStock_rule (lookup kvs (str ''inStock''))"
proof (cases body)
  case (JObj kvs)
  from assms have "filter (\<lambda>k. k \<notin> set allowedKeys) (map fst kvs) = []" and "field_errors kvs = []"
    by (simp_all add: JObj validate_full_object)
  then have "set (map fst kvs) \<subseteq> set allowedKeys" "name_rule (lookup kvs (str ''name''))"
    "price_rule (lookup kvs (str ''price''))" "inStock_rule (lookup kvs (str ''inStock''))"
    by (auto simp: filter_empty_conv field_errors_def split: if_splits)
  with JObj that show ?thesis by blast
qed (use assms in \<open>simp_all add: validateProductInput_def push_if_def Let_def\<close>)

lemma max_id_integer:
  assumes "\<forall>x \<in> set (finite_ids products). of_int \<lfloor>x\<rfloor> = x"
  shows "of_int \<lfloor>max_id products\<rfloor> = max_id products"
proof -
  have "Max (set (0 # finite_ids products)) \<in> set (0 # finite_ids products)"
    by (rule Max_in) simp_all
  then have "max_id products = 0 \<or> max_id products \<in> set (finite_ids products)"
    by (simp add: max_id_def)
  then show ?thesis
  proof
    assume "max_id products = 0" then show ?thesis by simp
  next
    assume "max_id products \<in> set (finite_ids products)"
    with assms show ?thesis by blast
  qed
qed

lemma next_id_safe:
  assumes "\<forall>x \<in> set (finite_ids products). of_int \<lfloor>x\<rfloor> = x" and "max_id products < 2 ^ 53"
  shows "js_add (Fin (max_id products)) (Fin 1) = Fin (max_id products + 1)"
  by (rule js_add_safe [OF max_id_integer [OF assms(1)] max_id_nonneg assms(2)])

lemma post_products_valid:
  assumes "validateProductInput body False = Inr []"
    and "readProducts env files = Inr products"
    and "\<forall>p \<in> set products. json_exact p \<and> p \<noteq> JNull"
    and "\<forall>x \<in> set (finite_ids products). of_int \<lfloor>x\<rfloor> = x" and "max_id products < 2 ^ 53"
  shows "post_products env files body =
     (case writeProducts env files (products @ [new_product (max_id products + 1) body]) of
        (Some err, files') \<Rightarrow> (Failed 500 (str ''Failed to save product'') err, files')
      | (None, files') \<Rightarrow> (Json 201 (new_product (max_id products + 1) body), files'))"
proof -
  from validate_full_ok [OF assms(1)] obtain kvs where b: "body = JObj kvs"
    and n: "name_rule (lookup kvs (str ''name''))" by blast
  from n obtain s where s: "lookup kvs (str ''name'') = JStr s" by (cases "lookup kvs (str ''name'')") auto
  have m: "reduce_maxId products (Fin 0) = Inr (Fin (max_id products))"
    unfolding max_id_def by (rule reduce_maxId_exact [OF assms(3)])
  have np: "new_product (max_id products + 1) body =
      JObj [(str ''id'', JNum (Fin (max_id products + 1))), (str ''name'', JStr (trim s)),
            (str ''price'', lookup kvs (str ''price'')), (str ''inStock'', lookup kvs (str ''inStock''))]"
    by (simp add: new_product_def b s retrim_def)
  note a = next_id_safe [OF assms(4,5)]
  show ?thesis
    unfolding np using assms(1,2) by (simp add: post_products_def m b s a Let_def del: js_add.simps)
qed

lemma new_product_exact:
  assumes "validateProductInput body False = Inr []"
  shows "json_exact (new_product i body) \<and> new_product i body \<noteq> JNull"
proof -
  from validate_full_ok [OF assms] obtain kvs where b: "body = JObj kvs"
    and n: "name_rule (lookup kvs (str ''name''))" and p: "price_rule (lookup kvs (str ''price''))"
    and s: "inStock_rule (lookup kvs (str ''inStock''))" by blast
  from n obtain s' where "lookup kvs (str ''name'') = JStr s'"
    by (cases "lookup kvs (str ''name'')") auto
  then show ?thesis
    using price_rule_exact [OF p] inStock_rule_exact [OF s]
    by (simp add: new_product_def b retrim_def)
qed

lemma entry_id_new_product: "entry_id (new_product i body) = Some i"
  by (simp add: new_product_def)

lemma finite_ids_append: "finite_ids (xs @ ys) = finite_ids xs @ finite_ids ys"
  by (induction xs) (simp_all add: finite_ids_def List.map_filter_simps split: option.splits)

lemma finite_ids_new: "finite_ids [new_product i body] = [i]"
  by (simp add: finite_ids_def List.map_filter_simps entry_id_new_product)

lemma max_id_append_new:
  "max_id (products @ [new_product (max_id products + 1) body]) = max_id products + 1"
proof -
  let ?S = "set (0 # finite_ids products)"
  have "max_id (products @ [new_product (max_id products + 1) body])
      = Max (insert (Max ?S + 1) ?S)"
    by (simp add: max_id_def finite_ids_append finite_ids_new insert_commute)
  also have "\<dots> = max (Max ?S + 1) (Max ?S)" by (rule Max_insert) simp_all
  also have "\<dots> = Max ?S + 1" by simp
  finally show ?thesis by (simp add: max_id_def)
qed

lemma post_products_created:
  assumes "validateProductInput body False = Inr []"
    and "readProducts no_faults files = Inr products"
    and "\<forall>p \<in> set products. json_exact p \<and> p \<noteq> JNull"
    and "\<forall>x \<in> set (finite_ids products). of_int \<lfloor>x\<rfloor> = x" and "max_id products < 2 ^ 53"
  shows "post_products no_faults files body =
     (Json 201 (new_product (max_id products + 1) body),
      files\<lparr>data_file := Some (Encoded (JArr (products @ [new_product (max_id products + 1) body]))),
             tmp_file := None\<rparr>)"
proof -
  have w: "write_error no_faults = None" "rename_error no_faults = None"
    by (simp_all add: no_faults_def)
  have "\<forall>p \<in> set (products @ [new_product (max_id products + 1) body]). json_exact p"
    using assms(3) new_product_exact [OF assms(1)] by auto
  then have "JSON_stringify (JArr (products @ [new_product (max_id products + 1) body]))
      = Encoded (JArr (products @ [new_product (max_id products + 1) body]))"
    by (rule stringify_exact)
  then show ?thesis
    by (simp add: post_products_valid [OF assms] writeProducts_ok [OF w])
qed

lemma readProducts_after_write:
  "readProducts no_faults (files\<lparr>data_file := Some (Encoded (JArr products)), tmp_file := t\<rparr>) = Inr products"
  by (simp add: readProducts_cases no_faults_def)

lemma id_new_product: "opt_prop (new_product i body) (str ''id'') = JNum (Fin i)"
  by (simp add: new_product_def)

lemma integer_ids_append_new:
  assumes "\<forall>x \<in> set (finite_ids products). of_int \<lfloor>x\<rfloor> = x"
  shows "\<forall>x \<in> set (finite_ids (products @ [new_product (max_id products + 1) body])). of_int \<lfloor>x\<rfloor> = x"
proof -
  have "(of_int \<lfloor>max_id products + 1\<rfloor> :: rat) = of_int \<lfloor>max_id products\<rfloor> + 1" by simp
  also have "\<dots> = max_id products + 1" by (simp only: max_id_integer [OF assms])
  finally have k: "of_int \<lfloor>max_id products + 1\<rfloor> = max_id products + 1" .
  show ?thesis
  proof
    fix x
    assume "x \<in> set (finite_ids (products @ [new_product (max_id products + 1) body]))"
    then have "x \<in> set (finite_ids products) \<or> x = max_id products + 1"
      by (auto simp add: finite_ids_append finite_ids_new)
    then show "of_int \<lfloor>x\<rfloor> = x"
    proof
      assume "x \<in> set (finite_ids products)"
      with assms show ?thesis by (rule bspec)
    next
      assume "x = max_id products + 1"
      then show ?thesis by (simp only: k)
    qed
  qed
qed

lemma creates_ids:
  assumes "\<forall>body \<in> set bodies. validateProductInput body False = Inr []"
    and "readProducts no_faults files = Inr products"
    and "\<forall>p \<in> set products. json_exact p \<and> p \<noteq> JNull"
    and "\<forall>x \<in> set (finite_ids products). of_int \<lfloor>x\<rfloor> = x"
    and "max_id products + of_nat (length bodies) \<le> 2 ^ 53"
  shows "map created_id (fst (creates files bodies)) =
     map (\<lambda>i. JNum (Fin (max_id products + 1 + of_nat i))) [0..<length bodies]"
  using assms
proof (induction bodies arbitrary: files products)
  case Nil
  then show ?case by simp
next
  case (Cons body bodies)
  let ?new = "new_product (max_id products + 1) body"
  let ?files = "files\<lparr>data_file := Some (Encoded (JArr (products @ [?new]))), tmp_file := None\<rparr>"
  from Cons.prems(1) have v: "validateProductInput body False = Inr []"
    and vs: "\<forall>body \<in> set bodies. validateProductInput body False = Inr []" by simp_all
  from Cons.prems(5) have lt: "max_id products < 2 ^ 53"
    and le: "max_id products + 1 + of_nat (length bodies) \<le> 2 ^ 53" by simp_all
  have p: "post_products no_faults files body = (Json 201 ?new, ?files)"
    by (rule post_products_created [OF v Cons.prems(2,3,4) lt])
  have r: "readProducts no_faults ?files = Inr (products @ [?new])"
    by (rule readProducts_after_write)
  have e: "\<forall>p \<in> set (products @ [?new]). json_exact p \<and> p \<noteq> JNull"
    using Cons.prems(3) new_product_exact [OF v] by auto
  have i: "\<forall>x \<in> set (finite_ids (products @ [?new])). of_int \<lfloor>x\<rfloor> = x"
    by (rule integer_ids_append_new [OF Cons.prems(4)])
  have b: "max_id (products @ [?new]) + of_nat (length bodies) \<le> 2 ^ 53"
    using le by (simp only: max_id_append_new)
  have IH: "map created_id (fst (creates ?files bodies)) =
      map (\<lambda>i. JNum (Fin (max_id products + 1 + 1 + of_nat i))) [0..<length bodies]"
    using Cons.IH [OF vs r e i b] by (simp only: max_id_append_new)
  have shift: "map (\<lambda>i. JNum (Fin (max_id products + 1 + 1 + of_nat i))) [0..<length bodies] =
      map (\<lambda>i. JNum (Fin (max_id products + 1 + of_nat i))) (map Suc [0..<length bodies])"
  proof -
    have "JNum (Fin (max_id products + 1 + 1 + of_nat i)) = JNum (Fin (max_id products + 1 + of_nat (Suc i)))"
      for i by simp
    then have "map (\<lambda>i. JNum (Fin (max_id products + 1 + 1 + of_nat i))) [0..<length bodies] =
      map (\<lambda>i. JNum (Fin (max_id products + 1 + of_nat (Suc i)))) [0..<length bodies]"
      by (simp only:)
    also have "\<dots> = map (\<lambda>i. JNum (Fin (max_id products + 1 + of_nat i))) (map Suc [0..<length bodies])"
      by (simp only: map_map comp_def)
    finally show ?thesis .
  qed
  have upt: "[0..<length (body # bodies)] = 0 # map Suc [0..<length bodies]"
  proof -
    have "[0..<Suc (length bodies)] = 0 # [Suc 0..<Suc (length bodies)]"
      by (rule upt_conv_Cons) simp
    then show ?thesis by (simp only: length_Cons map_Suc_upt)
  qed
  have "map created_id (fst (creates files (body # bodies))) =
      JNum (Fin (max_id products + 1)) # map created_id (fst (creates ?files bodies))"
    by (simp add: p id_new_product split: prod.splits)
  also have "\<dots> = JNum (Fin (max_id products + 1)) #
      map (\<lambda>i. JNum (Fin (max_id products + 1 + of_nat i))) (map Suc [0..<length bodies])"
    by (simp only: IH shift)
  also have "\<dots> = map (\<lambda>i. JNum (Fin (max_id products + 1 + of_nat i))) [0..<length (body # bodies)]"
    by (simp only: upt list.map) simp
  finally show ?case .
qed

lemma distinct_consecutive_ids:
  "distinct (map (\<lambda>i. JNum (Fin (m + of_nat i))) [0..<n])"
  by (simp add: distinct_map inj_on_def)

text \<open>
  The delete of an id that no entry of the collection has, but the product created last:
  the entries that have an id stay, so the next create finds the same maximum.
\<close>

lemma keeps_entry_id: "entry_id p = Some x \<Longrightarrow> keeps (Fin k) p = (x \<noteq> k)"
proof (cases p)
  case (JObj kvs)
  assume "entry_id p = Some x"
  with JObj have "lookup kvs (str ''id'') = JNum (Fin x)"
    by (simp split: jsval.splits jsnum.splits)
  with JObj show ?thesis by (simp add: keeps_def)
qed simp_all

lemma finite_ids_keeps:
  "\<forall>x \<in> set (finite_ids products). x \<noteq> k \<Longrightarrow>
   finite_ids (filter (keeps (Fin k)) products) = finite_ids products"
proof (induction products)
  case Nil
  then show ?case by simp
next
  case (Cons p products)
  show ?case
  proof (cases "entry_id p")
    case None
    with Cons show ?thesis by (simp add: finite_ids_def List.map_filter_simps)
  next
    case (Some x)
    with Cons.prems have "x \<noteq> k" by (simp add: finite_ids_def List.map_filter_simps)
    with Some have "keeps (Fin k) p" by (simp add: keeps_entry_id)
    with Some Cons show ?thesis by (simp add: finite_ids_def List.map_filter_simps)
  qed
qed

lemma keeps_new_product: "\<not> keeps (Fin i) (new_product i body)"
  by (simp add: keeps_def new_product_def)

lemma delete_created:
  assumes "readProducts no_faults files = Inr (products @ [new_product (max_id products + 1) body])"
    and "\<forall>p \<in> set products. json_exact p \<and> p \<noteq> JNull"
    and "\<forall>x \<in> set (finite_ids products). of_int \<lfloor>x\<rfloor> = x"
  shows "delete_products no_faults files (Fin (max_id products + 1)) =
     (Json 200 (message ''Product deleted successfully''),
      files\<lparr>data_file := Some (Encoded (JArr (filter (keeps (Fin (max_id products + 1))) products))),
             tmp_file := None\<rparr>)"
proof -
  let ?k = "max_id products + 1"
  have int: "of_int \<lfloor>?k\<rfloor> = ?k"
  proof -
    have "(of_int \<lfloor>?k\<rfloor> :: rat) = of_int \<lfloor>max_id products\<rfloor> + 1" by simp
    also have "\<dots> = ?k" by (simp only: max_id_integer [OF assms(3)])
    finally show ?thesis .
  qed
  have pos: "0 < ?k" using max_id_nonneg [of products] by simp
  with int have valid: "\<not> invalid_id (Fin ?k)" by (simp add: invalid_id_def js_le_def)
  have len: "length (filter (keeps (Fin ?k)) products) \<noteq> length (products @ [new_product ?k body])"
  proof
    assume "length (filter (keeps (Fin ?k)) products) = length (products @ [new_product ?k body])"
    then have "length (filter (keeps (Fin ?k)) products) = Suc (length products)" by simp
    moreover have "length (filter (keeps (Fin ?k)) products) \<le> length products"
      by (rule length_filter_le)
    ultimately show False by linarith
  qed
  have w: "write_error no_faults = None" "rename_error no_faults = None"
    by (simp_all add: no_faults_def)
  have "\<forall>p \<in> set (filter (keeps (Fin ?k)) products). json_exact p" using assms(2) by simp
  then have st: "JSON_stringify (JArr (filter (keeps (Fin ?k)) products)) =
      Encoded (JArr (filter (keeps (Fin ?k)) products))" by (rule stringify_exact)
  show ?thesis
    using valid len
    by (simp add: delete_products_def assms(1) keeps_new_product writeProducts_ok [OF w] st Let_def)
qed

text \<open>
  Claim C3, amended. For every collection that JSON can express, that has no \<open>null\<close> entry
  and whose ids are integers below \<open>2^53\<close>, a create with a valid body assigns the id
  \<open>max(existing ids, 0) + 1\<close>, which is greater than every id in the collection, and appends
  the new record. Creates in sequence get the consecutive ids that follow, strictly
  increasing and distinct, as long as they do not exceed \<open>2^53\<close>. An id is not kept from
  being reused: when the product just created is deleted, the next create assigns its id
  again.
\<close>

theorem create_assigns_next_id:
  assumes "readProducts no_faults files = Inr products"
    and "\<forall>p \<in> set products. json_exact p \<and> p \<noteq> JNull"
    and "\<forall>x \<in> set (finite_ids products). of_int \<lfloor>x\<rfloor> = x"
    and "max_id products < 2 ^ 53"
    and "max_id products + of_nat (length bodies) \<le> 2 ^ 53"
    and "validateProductInput body False = Inr []"
    and "validateProductInput body' False = Inr []"
    and "\<forall>b \<in> set bodies. validateProductInput b False = Inr []"
  shows "post_products no_faults files body =
           (Json 201 (new_product (max_id products + 1) body),
            files\<lparr>data_file := Some (Encoded (JArr (products @ [new_product (max_id products + 1) body]))),
                   tmp_file := None\<rparr>)
       \<and> created_id (fst (post_products no_faults files body)) = JNum (Fin (max_id products + 1))
       \<and> (\<forall>x \<in> set (finite_ids products). x < max_id products + 1)
       \<and> map created_id (fst (creates files bodies)) =
           map (\<lambda>i. JNum (Fin (max_id products + 1 + of_nat i))) [0..<length bodies]
       \<and> distinct (map created_id (fst (creates files bodies)))
       \<and> fst (delete_products no_faults (snd (post_products no_faults files body))
                (Fin (max_id products + 1))) = Json 200 (message ''Product deleted successfully'')
       \<and> created_id (fst (post_products no_faults
            (snd (delete_products no_faults (snd (post_products no_faults files body))
                   (Fin (max_id products + 1)))) body')) = JNum (Fin (max_id products + 1))"
proof -
  let ?k = "max_id products + 1"
  let ?files1 = "files\<lparr>data_file := Some (Encoded (JArr (products @ [new_product ?k body]))),
                   tmp_file := None\<rparr>"
  let ?rest = "filter (keeps (Fin ?k)) products"
  let ?files2 = "?files1\<lparr>data_file := Some (Encoded (JArr ?rest)), tmp_file := None\<rparr>"
  have a: "post_products no_faults files body = (Json 201 (new_product ?k body), ?files1)"
    by (rule post_products_created [OF assms(6,1,2,3,4)])
  then have b: "created_id (fst (post_products no_faults files body)) = JNum (Fin ?k)"
    by (simp add: id_new_product)
  have c: "\<forall>x \<in> set (finite_ids products). x < ?k"
  proof
    fix x assume "x \<in> set (finite_ids products)"
    then have "x \<le> max_id products" by (rule max_id_ge)
    then show "x < ?k" by simp
  qed
  have d: "map created_id (fst (creates files bodies)) =
           map (\<lambda>i. JNum (Fin (?k + of_nat i))) [0..<length bodies]"
    by (rule creates_ids [OF assms(8,1,2,3,5)])
  have e: "distinct (map created_id (fst (creates files bodies)))"
    by (simp only: d distinct_consecutive_ids)
  have r1: "readProducts no_faults ?files1 = Inr (products @ [new_product ?k body])"
    by (rule readProducts_after_write)
  have del: "delete_products no_faults ?files1 (Fin ?k) =
      (Json 200 (message ''Product deleted successfully''), ?files2)"
    by (rule delete_created [OF r1 assms(2,3)])
  have f: "fst (delete_products no_faults (snd (post_products no_faults files body)) (Fin ?k)) =
      Json 200 (message ''Product deleted successfully'')"
    by (simp only: a del fst_conv snd_conv)
  have ne: "\<forall>x \<in> set (finite_ids products). x \<noteq> ?k" using c by auto
  have ids: "finite_ids ?rest = finite_ids products" by (rule finite_ids_keeps [OF ne])
  then have m: "max_id ?rest = max_id products" by (simp add: max_id_def)
  have r2: "readProducts no_faults ?files2 = Inr ?rest"
    by (rule readProducts_after_write)
  have ex: "\<forall>p \<in> set ?rest. json_exact p \<and> p \<noteq> JNull" using assms(2) by simp
  have i2: "\<forall>x \<in> set (finite_ids ?rest). of_int \<lfloor>x\<rfloor> = x" using assms(3) by (simp only: ids)
  have lt2: "max_id ?rest < 2 ^ 53" using assms(4) by (simp only: m)
  have "post_products no_faults ?files2 body' =
      (Json 201 (new_product (max_id ?rest + 1) body'),
       ?files2\<lparr>data_file := Some (Encoded (JArr (?rest @ [new_product (max_id ?rest + 1) body']))),
               tmp_file := None\<rparr>)"
    by (rule post_products_created [OF assms(7) r2 ex i2 lt2])
  then have "created_id (fst (post_products no_faults ?files2 body')) = JNum (Fin ?k)"
    by (simp add: id_new_product m)
  then have g: "created_id (fst (post_products no_faults
            (snd (delete_products no_faults (snd (post_products no_faults files body)) (Fin ?k))) body'))
        = JNum (Fin ?k)"
    by (simp only: a del fst_conv snd_conv)
  from a b c d e f g show ?thesis by (intro conjI)
qed

text \<open>
  The theorem at the collection of the product with id 1: the next ids are 2 and 3, and
  the id 2 is assigned again once its product is deleted.
\<close>

theorem create_assigns_next_id_witness:
  "readProducts no_faults fs_A = Inr [product_A]
   \<and> json_exact product_A \<and> product_A \<noteq> JNull
   \<and> finite_ids [product_A] = [1]
   \<and> max_id [product_A] = 1
   \<and> validateProductInput body_A False = Inr []
   \<and> created_id (fst (post_products no_faults fs_A body_A)) = JNum (Fin 2)
   \<and> map created_id (fst (creates fs_A [body_A, body_A])) = [JNum (Fin 2), JNum (Fin 3)]
   \<and> created_id (fst (post_products no_faults
        (snd (delete_products no_faults (snd (post_products no_faults fs_A body_A)) (Fin 2))) body_A))
      = JNum (Fin 2)"
proof -
  have r: "readProducts no_faults fs_A = Inr [product_A]"
    by (simp add: readProducts_cases no_faults_def fs_A_def)
  have e: "json_exact product_A" "product_A \<noteq> JNull"
    by (simp_all add: product_A_def)
  then have es: "\<forall>p \<in> set [product_A]. json_exact p \<and> p \<noteq> JNull" by simp
  have v: "validateProductInput body_A False = Inr []"
    by code_simp
  then have vs: "\<forall>b \<in> set [body_A, body_A]. validateProductInput b False = Inr []" by simp
  have fi: "finite_ids [product_A] = [1]"
    by (simp add: finite_ids_def List.map_filter_simps product_A_def)
  then have i: "\<forall>x \<in> set (finite_ids [product_A]). of_int \<lfloor>x\<rfloor> = x" by simp
  have m: "max_id [product_A] = 1"
    by (simp add: max_id_def fi)
  have lt: "max_id [product_A] < 2 ^ 53" by (simp add: m)
  have le: "max_id [product_A] + of_nat (length [body_A, body_A]) \<le> 2 ^ 53" by (simp add: m)
  note t = create_assigns_next_id [OF r es i lt le v v vs]
  have "created_id (fst (post_products no_faults fs_A body_A)) = JNum (Fin (max_id [product_A] + 1))"
    and "map created_id (fst (creates fs_A [body_A, body_A])) =
           map (\<lambda>i. JNum (Fin (max_id [product_A] + 1 + of_nat i))) [0..<length [body_A, body_A]]"
    and "created_id (fst (post_products no_faults
          (snd (delete_products no_faults (snd (post_products no_faults fs_A body_A))
                 (Fin (max_id [product_A] + 1)))) body_A)) = JNum (Fin (max_id [product_A] + 1))"
    by (rule t [THEN conjunct2, THEN conjunct1],
        rule t [THEN conjunct2, THEN conjunct2, THEN conjunct2, THEN conjunct1],
        rule t [THEN conjunct2, THEN conjunct2, THEN conjunct2, THEN conjunct2, THEN conjunct2,
                THEN conjunct2])
  then have "created_id (fst (post_products no_faults fs_A body_A)) = JNum (Fin 2)"
    and "map created_id (fst (creates fs_A [body_A, body_A])) = [JNum (Fin 2), JNum (Fin 3)]"
    and "created_id (fst (post_products no_faults
          (snd (delete_products no_faults (snd (post_products no_faults fs_A body_A)) (Fin 2))) body_A))
        = JNum (Fin 2)"
    by (simp_all add: m upt_rec)
  with r e fi m v show ?thesis by (intro conjI)
qed

text \<open>
  Claim C3 fails: an id is reused after a deletion. Two creates on the empty store get the
  ids 1 and 2; after the delete of the product with id 2, the next create gets the id 2
  again.
\<close>

theorem id_reused_after_delete:
  "map created_id (fst (creates fs_empty [body_A, body_A])) = [JNum (Fin 1), JNum (Fin 2)]
   \<and> fst (delete_products no_faults (snd (creates fs_empty [body_A, body_A])) (Fin 2)) =
       Json 200 (message ''Product deleted successfully'')
   \<and> created_id (fst (post_products no_faults
        (snd (delete_products no_faults (snd (creates fs_empty [body_A, body_A])) (Fin 2))) body_A)) =
       JNum (Fin 2)"
  by (simp add: post_products_def delete_products_def validateProductInput_def Object_keys_def
      allowedKeys_def push_if_def str_eq_iff readProducts_cases no_faults_def fs_empty_def body_A_def
      writeProducts_def JSON_stringify_def trim_def js_whitespace_def str_def Let_def js_gt_def
      invalid_id_def js_le_def keeps_def message_def js_add_0_1 js_add_1_1 del: js_add.simps)

section \<open>The invariant of the persisted collection\<close>

lemma collection_data_file:
  "collection files = (case data_file files of Some (Encoded (JArr products)) \<Rightarrow> products | _ \<Rightarrow> [])"
  by (simp add: collection_def readProducts_cases no_faults_def
      split: option.splits file_text.splits jsval.splits)

lemma collection_cong: "data_file files' = data_file files \<Longrightarrow> collection files' = collection files"
  by (simp add: collection_data_file)

lemma readProducts_collection:
  "readProducts env files = Inr products \<Longrightarrow> products = collection files \<or> products = []"
  by (auto simp: readProducts_cases collection_data_file
      split: option.splits file_text.splits jsval.splits if_splits)

lemma valid_collection_Nil: "valid_collection []"
  by (simp add: valid_collection_def)

lemma valid_collection_exact:
  "valid_collection products \<Longrightarrow> \<forall>p \<in> set products. json_exact p \<and> p \<noteq> JNull"
  by (auto simp: valid_collection_def dest: valid_product_exact)

lemma collection_written:
  assumes "\<forall>p \<in> set products. json_exact p"
    and "data_file files' = Some (JSON_stringify (JArr products))"
  shows "collection files' = products"
  using assms(2) by (simp add: collection_data_file stringify_exact [OF assms(1)])

lemma valid_product_id:
  assumes "valid_product p"
  obtains x where "product_id p = JNum (Fin x)" "entry_id p = Some x" "of_int \<lfloor>x\<rfloor> = x" "0 < x"
proof -
  from assms obtain v1 v2 v3 v4 where
    p: "p = JObj [(str ''id'', v1), (str ''name'', v2), (str ''price'', v3), (str ''inStock'', v4)]"
    and i: "id_rule v1" by (rule valid_product_shape)
  from i obtain x where "v1 = JNum (Fin x)" "of_int \<lfloor>x\<rfloor> = x" "0 < x"
    by (cases v1 rule: id_rule.cases) auto
  with p that show ?thesis by (simp add: product_id_def)
qed

lemma entry_id_in_finite_ids: "p \<in> set products \<Longrightarrow> entry_id p = Some x \<Longrightarrow> x \<in> set (finite_ids products)"
  by (induction products) (auto simp: finite_ids_def List.map_filter_simps split: option.splits)

lemma finite_ids_source:
  "x \<in> set (finite_ids products) \<Longrightarrow> \<exists>p \<in> set products. entry_id p = Some x"
  by (induction products) (auto simp: finite_ids_def List.map_filter_simps split: option.splits)

lemma valid_integer_ids:
  assumes "\<forall>p \<in> set products. valid_product p"
  shows "\<forall>x \<in> set (finite_ids products). of_int \<lfloor>x\<rfloor> = x"
proof
  fix x assume "x \<in> set (finite_ids products)"
  from finite_ids_source [OF this] obtain p where p: "p \<in> set products"
    and e: "entry_id p = Some x" by blast
  from assms p have "valid_product p" by simp
  from valid_product_id [OF this] e show "of_int \<lfloor>x\<rfloor> = x" by auto
qed

lemma max_id_Nil: "max_id [] = 0"
  by (simp add: max_id_def finite_ids_def List.map_filter_simps)

lemma max_id_mono:
  assumes "set (finite_ids products') \<subseteq> set (finite_ids products)"
  shows "max_id products' \<le> max_id products"
  unfolding max_id_def using assms by (intro Max_mono) auto

lemma finite_ids_filter: "set (finite_ids (filter P products)) \<subseteq> set (finite_ids products)"
  by (induction products) (auto simp: finite_ids_def List.map_filter_simps split: option.splits)

lemma max_id_filter: "max_id (filter P products) \<le> max_id products"
  by (rule max_id_mono [OF finite_ids_filter])

lemma entry_id_product_id:
  "entry_id p = (case product_id p of JNum (Fin x) \<Rightarrow> Some x | _ \<Rightarrow> None)"
  by (cases p) (simp_all add: product_id_def)

lemma finite_ids_Cons:
  "finite_ids (p # products) =
     (case entry_id p of None \<Rightarrow> finite_ids products | Some x \<Rightarrow> x # finite_ids products)"
  by (simp add: finite_ids_def List.map_filter_simps split: option.splits)

lemma finite_ids_same_ids:
  "map product_id products' = map product_id products \<Longrightarrow> finite_ids products' = finite_ids products"
proof (induction products' arbitrary: products)
  case Nil
  then show ?case by simp
next
  case (Cons p' products')
  then obtain p products0 where ps: "products = p # products0" by (cases products) auto
  with Cons.prems have i: "product_id p' = product_id p"
    and m: "map product_id products' = map product_id products0" by simp_all
  from i have e: "entry_id p' = entry_id p" by (simp only: entry_id_product_id)
  have "finite_ids products' = finite_ids products0" by (rule Cons.IH [OF m])
  with e show ?case by (simp only: ps finite_ids_Cons)
qed

lemma max_id_same_ids:
  assumes "map product_id products' = map product_id products"
  shows "max_id products' = max_id products"
  by (simp only: max_id_def finite_ids_same_ids [OF assms])

lemma new_product_valid:
  assumes "validateProductInput body False = Inr []"
    and "of_int \<lfloor>i\<rfloor> = i" and "0 < i"
  shows "valid_product (new_product i body)"
proof -
  from validate_full_ok [OF assms(1)] obtain kvs where b: "body = JObj kvs"
    and n: "name_rule (lookup kvs (str ''name''))" and p: "price_rule (lookup kvs (str ''price''))"
    and s: "inStock_rule (lookup kvs (str ''inStock''))" by blast
  from n obtain s' where s': "lookup kvs (str ''name'') = JStr s'" and t: "trim s' \<noteq> []"
    by (cases "lookup kvs (str ''name'')") auto
  from trim_ends [OF t] t have "stored_name_rule (JStr (trim s'))" by simp
  then show ?thesis
    using assms(2,3) p s by (simp add: new_product_def b s' retrim_def str_eq_iff)
qed

lemma valid_collection_append_new:
  assumes "valid_collection products" and "validateProductInput body False = Inr []"
  shows "valid_collection (products @ [new_product (max_id products + 1) body])"
proof -
  let ?i = "max_id products + 1"
  from assms(1) have v: "\<forall>p \<in> set products. valid_product p"
    and d: "distinct (map product_id products)" by (simp_all add: valid_collection_def)
  have int: "of_int \<lfloor>?i\<rfloor> = ?i"
  proof -
    have "(of_int \<lfloor>?i\<rfloor> :: rat) = of_int \<lfloor>max_id products\<rfloor> + 1" by simp
    also have "\<dots> = ?i" by (simp only: max_id_integer [OF valid_integer_ids [OF v]])
    finally show ?thesis .
  qed
  have pos: "0 < ?i" using max_id_nonneg [of products] by simp
  have new: "valid_product (new_product ?i body)"
    by (rule new_product_valid [OF assms(2) int pos])
  have fresh: "product_id (new_product ?i body) \<notin> set (map product_id products)"
  proof
    assume "product_id (new_product ?i body) \<in> set (map product_id products)"
    then obtain p where p: "p \<in> set products" and e: "product_id p = JNum (Fin ?i)"
      by (auto simp: product_id_def id_new_product)
    from v p have "valid_product p" by simp
    from valid_product_id [OF this] e have "entry_id p = Some ?i" by auto
    from max_id_ge [OF entry_id_in_finite_ids [OF p this]] show False by simp
  qed
  from v d new fresh show ?thesis by (simp add: valid_collection_def)
qed

lemma post_products_outcome:
  assumes "valid_collection (collection files)" and "max_id (collection files) < 2 ^ 53"
  shows "collection (snd (post_products env files body)) = collection files
       \<or> (\<exists>products. valid_collection products \<and> max_id products \<le> max_id (collection files)
            \<and> validateProductInput body False = Inr []
            \<and> collection (snd (post_products env files body)) =
                products @ [new_product (max_id products + 1) body])"
proof (cases "validateProductInput body False")
  case (Inl e)
  then have "snd (post_products env files body) = files" by (simp add: post_products_def)
  then show ?thesis by (intro disjI1) (simp only:)
next
  case (Inr errors)
  show ?thesis
  proof (cases "errors = []")
    case False
    with Inr have "snd (post_products env files body) = files" by (simp add: post_products_def)
    then show ?thesis by (intro disjI1) (simp only:)
  next
    case True
    with Inr have v: "validateProductInput body False = Inr []" by simp
    show ?thesis
    proof (cases "readProducts env files")
      case (Inl err)
      with v have "snd (post_products env files body) = files" by (simp add: post_products_def)
      then show ?thesis by (intro disjI1) (simp only:)
    next
      case (Inr products)
      from readProducts_collection [OF Inr] assms(1) have vc: "valid_collection products"
        by (auto simp: valid_collection_Nil)
      from readProducts_collection [OF Inr] have mx: "max_id products \<le> max_id (collection files)"
        by (auto simp: max_id_Nil max_id_nonneg)
      with assms(2) have lt: "max_id products < 2 ^ 53" by simp
      from vc have ints: "\<forall>x \<in> set (finite_ids products). of_int \<lfloor>x\<rfloor> = x"
        by (intro valid_integer_ids) (simp add: valid_collection_def)
      let ?new = "products @ [new_product (max_id products + 1) body]"
      have "snd (post_products env files body) = snd (writeProducts env files ?new)"
        unfolding post_products_valid [OF v Inr valid_collection_exact [OF vc] ints lt]
        by (cases "writeProducts env files ?new"; cases "fst (writeProducts env files ?new)") simp_all
      then have "data_file (snd (post_products env files body)) =
          data_file (snd (writeProducts env files ?new))" by (simp only:)
      then have df: "data_file (snd (post_products env files body)) =
          (if write_error env = None \<and> rename_error env = None
           then Some (JSON_stringify (JArr ?new)) else data_file files)"
        by (simp only: writeProducts_data_file)
      show ?thesis
      proof (cases "write_error env = None \<and> rename_error env = None")
        case False
        with df have "data_file (snd (post_products env files body)) = data_file files" by simp
        then show ?thesis by (intro disjI1 collection_cong)
      next
        case True
        have ex: "\<forall>p \<in> set ?new. json_exact p"
          using valid_collection_exact [OF valid_collection_append_new [OF vc v]] by blast
        from df True have d2: "data_file (snd (post_products env files body)) =
            Some (JSON_stringify (JArr ?new))" by simp
        have "collection (snd (post_products env files body)) = ?new"
          by (rule collection_written [OF ex d2])
        with vc mx v show ?thesis by (intro disjI2 exI [of _ products] conjI)
      qed
    qed
  qed
qed

lemma post_products_invariant:
  assumes "valid_collection (collection files)" and "max_id (collection files) < 2 ^ 53"
  shows "valid_collection (collection (snd (post_products env files body)))"
    and "max_id (collection (snd (post_products env files body))) \<le> max_id (collection files) + 1"
proof -
  from post_products_outcome [OF assms, of env body]
  have "valid_collection (collection (snd (post_products env files body)))
      \<and> max_id (collection (snd (post_products env files body))) \<le> max_id (collection files) + 1"
  proof (elim disjE exE conjE)
    assume "collection (snd (post_products env files body)) = collection files"
    with assms(1) show ?thesis by simp
  next
    fix products
    assume vc: "valid_collection products" and v: "validateProductInput body False = Inr []"
      and mx: "max_id products \<le> max_id (collection files)"
      and c: "collection (snd (post_products env files body)) =
        products @ [new_product (max_id products + 1) body]"
    have a: "valid_collection (products @ [new_product (max_id products + 1) body])"
      by (rule valid_collection_append_new [OF vc v])
    have "max_id (products @ [new_product (max_id products + 1) body]) = max_id products + 1"
      by (rule max_id_append_new)
    with mx have b: "max_id (products @ [new_product (max_id products + 1) body])
        \<le> max_id (collection files) + 1" by simp
    from a b show ?thesis by (simp only: c)
  qed
  then show "valid_collection (collection (snd (post_products env files body)))"
    and "max_id (collection (snd (post_products env files body))) \<le> max_id (collection files) + 1"
    by (rule conjunct1, rule conjunct2)
qed

lemma index_key_0_not_allowed: "index_key 0 \<notin> set allowedKeys"
  by (simp add: index_key_def allowedKeys_def str_def)

lemma validate_partial_object:
  "validateProductInput (JObj kvs) True =
     Inr (map unknown_field (filter (\<lambda>k. k \<notin> set allowedKeys) (map fst kvs))
      @ (if str ''name'' \<in> set (map fst kvs) \<and> \<not> name_rule (lookup kvs (str ''name''))
         then [str ''name must be a non-empty string''] else [])
      @ (if str ''price'' \<in> set (map fst kvs) \<and> \<not> price_rule (lookup kvs (str ''price''))
         then [str ''price must be a non-negative number''] else [])
      @ (if str ''inStock'' \<in> set (map fst kvs) \<and> \<not> inStock_rule (lookup kvs (str ''inStock''))
         then [str ''inStock must be a boolean''] else []))"
  by (simp add: validateProductInput_def Object_keys_def push_unknown_eq push_if_def
      bad_name_rule bad_price_rule bad_inStock_rule Let_def del: set_map)

lemma validate_partial_ok:
  assumes "validateProductInput body True = Inr []"
  shows "(body = JArr [] \<or> (\<exists>kvs. body = JObj kvs))
       \<and> set (map fst (own_entries body)) \<subseteq> set allowedKeys
       \<and> (str ''name'' \<in> set (map fst (own_entries body)) \<longrightarrow>
            name_rule (lookup (own_entries body) (str ''name'')))
       \<and> (str ''price'' \<in> set (map fst (own_entries body)) \<longrightarrow>
            price_rule (lookup (own_entries body) (str ''price'')))
       \<and> (str ''inStock'' \<in> set (map fst (own_entries body)) \<longrightarrow>
            inStock_rule (lookup (own_entries body) (str ''inStock'')))"
proof (cases body)
  case (JArr xs)
  from assms have "filter (\<lambda>k. k \<notin> set allowedKeys) (map index_key [0..<length xs]) = []"
    by (simp add: JArr validateProductInput_def Object_keys_def push_unknown_eq push_if_def)
  then have all: "\<forall>i < length xs. index_key i \<in> set allowedKeys"
    by (auto simp: filter_empty_conv)
  have "xs = []"
  proof (rule ccontr)
    assume "xs \<noteq> []"
    then have "0 < length xs" by simp
    with all have "index_key 0 \<in> set allowedKeys" by blast
    with index_key_0_not_allowed show False by simp
  qed
  with JArr show ?thesis by simp
next
  case (JObj kvs)
  from assms have e: "map unknown_field (filter (\<lambda>k. k \<notin> set allowedKeys) (map fst kvs))
      @ (if str ''name'' \<in> set (map fst kvs) \<and> \<not> name_rule (lookup kvs (str ''name''))
         then [str ''name must be a non-empty string''] else [])
      @ (if str ''price'' \<in> set (map fst kvs) \<and> \<not> price_rule (lookup kvs (str ''price''))
         then [str ''price must be a non-negative number''] else [])
      @ (if str ''inStock'' \<in> set (map fst kvs) \<and> \<not> inStock_rule (lookup kvs (str ''inStock''))
         then [str ''inStock must be a boolean''] else []) = []"
    by (simp only: JObj validate_partial_object sum.inject)
  from e have e1: "filter (\<lambda>k. k \<notin> set allowedKeys) (map fst kvs) = []"
    by (simp only: append_is_Nil_conv map_is_Nil_conv)
  from e have "(if str ''name'' \<in> set (map fst kvs) \<and> \<not> name_rule (lookup kvs (str ''name''))
         then [str ''name must be a non-empty string''] else []) = []"
    by (simp only: append_is_Nil_conv)
  then have e2: "\<not> (str ''name'' \<in> set (map fst kvs) \<and> \<not> name_rule (lookup kvs (str ''name'')))"
    by (simp split: if_splits del: set_map)
  from e have "(if str ''price'' \<in> set (map fst kvs) \<and> \<not> price_rule (lookup kvs (str ''price''))
         then [str ''price must be a non-negative number''] else []) = []"
    by (simp only: append_is_Nil_conv)
  then have e3: "\<not> (str ''price'' \<in> set (map fst kvs) \<and> \<not> price_rule (lookup kvs (str ''price'')))"
    by (simp split: if_splits del: set_map)
  from e have "(if str ''inStock'' \<in> set (map fst kvs) \<and> \<not> inStock_rule (lookup kvs (str ''inStock''))
         then [str ''inStock must be a boolean''] else []) = []"
    by (simp only: append_is_Nil_conv)
  then have e4: "\<not> (str ''inStock'' \<in> set (map fst kvs) \<and> \<not> inStock_rule (lookup kvs (str ''inStock'')))"
    by (simp split: if_splits del: set_map)
  from e1 e2 e3 e4
  show ?thesis by (auto simp: JObj filter_empty_conv)
qed (use assms in \<open>simp_all add: validateProductInput_def Object_keys_def push_if_def Let_def\<close>)

lemma merge_update_entries:
  assumes "distinct (map fst (own_entries body))"
  obtains u where "merge_update (JObj a) body = JObj u"
    and "\<And>k. lookup u k =
          retrim k (if k \<in> set (map fst (own_entries body)) then lookup (own_entries body) k else lookup a k)"
    and "map fst u = map fst a @ filter (\<lambda>k. k \<notin> set (map fst a)) (map fst (own_entries body))"
proof -
  define m where "m = spread (JObj a) body"
  define u where "u = (case lookup m (str ''name'') of
             JStr s \<Rightarrow> set_prop m (str ''name'') (JStr (trim s)) | _ \<Rightarrow> m)"
  have lm: "lookup m k =
      (if k \<in> set (map fst (own_entries body)) then lookup (own_entries body) k else lookup a k)" for k
    unfolding m_def spread_def using lookup_assign [OF assms] by simp
  have km: "map fst m = map fst a @ filter (\<lambda>k. k \<notin> set (map fst a)) (map fst (own_entries body))"
    unfolding m_def spread_def using keys_assign [OF assms] by simp
  have 1: "merge_update (JObj a) body = JObj u"
    unfolding u_def m_def by (rule merge_update_unfold)
  have 2: "lookup u k =
      retrim k (if k \<in> set (map fst (own_entries body)) then lookup (own_entries body) k else lookup a k)" for k
  proof -
    have "lookup u k = retrim k (lookup m k)" unfolding u_def by (rule retrim_lookup)
    then show ?thesis by (simp only: lm)
  qed
  have 3: "map fst u = map fst a @ filter (\<lambda>k. k \<notin> set (map fst a)) (map fst (own_entries body))"
  proof -
    have "map fst u = map fst m" unfolding u_def by (rule retrim_keys)
    then show ?thesis by (simp only: km)
  qed
  from 1 2 3 that show ?thesis by blast
qed

lemma stored_name_retrim: "stored_name_rule v \<Longrightarrow> retrim k v = v"
proof (cases v)
  case (JStr s)
  assume "stored_name_rule v"
  with JStr have "trim s = s" by (intro trim_fixed) simp_all
  with JStr show ?thesis by (simp add: retrim_def)
qed (simp_all add: retrim_def)

lemma name_rule_retrim: "name_rule v \<Longrightarrow> stored_name_rule (retrim (str ''name'') v)"
proof (cases v)
  case (JStr s)
  assume "name_rule v"
  with JStr have t: "trim s \<noteq> []" by simp
  from trim_ends [OF t] t JStr show ?thesis by (simp add: retrim_def)
qed simp_all

lemma retrim_other: "k \<noteq> str ''name'' \<Longrightarrow> retrim k v = v"
  by (simp add: retrim_def)

lemma merge_update_valid:
  assumes "valid_product stored" and "validateProductInput body True = Inr []" and "wf_val body"
  shows "valid_product (merge_update stored body)
       \<and> product_id (merge_update stored body) = product_id stored"
proof -
  from assms(1) obtain v1 v2 v3 v4 where
    st: "stored = JObj [(str ''id'', v1), (str ''name'', v2), (str ''price'', v3), (str ''inStock'', v4)]"
    and r: "id_rule v1" "stored_name_rule v2" "price_rule v3" "inStock_rule v4"
    by (rule valid_product_shape)
  let ?a = "[(str ''id'', v1), (str ''name'', v2), (str ''price'', v3), (str ''inStock'', v4)]"
  let ?b = "own_entries body"
  note vp = validate_partial_ok [OF assms(2)]
  from vp have shape: "body = JArr [] \<or> (\<exists>kvs. body = JObj kvs)" by (rule conjunct1)
  from vp have sub: "set (map fst ?b) \<subseteq> set allowedKeys" by (rule conjunct2 [THEN conjunct1])
  from vp have n: "str ''name'' \<in> set (map fst ?b) \<longrightarrow> name_rule (lookup ?b (str ''name''))"
    by (rule conjunct2 [THEN conjunct2, THEN conjunct1])
  from vp have p: "str ''price'' \<in> set (map fst ?b) \<longrightarrow> price_rule (lookup ?b (str ''price''))"
    by (rule conjunct2 [THEN conjunct2, THEN conjunct2, THEN conjunct1])
  from vp have s: "str ''inStock'' \<in> set (map fst ?b) \<longrightarrow> inStock_rule (lookup ?b (str ''inStock''))"
    by (rule conjunct2 [THEN conjunct2, THEN conjunct2, THEN conjunct2])
  from shape assms(3) have d: "distinct (map fst ?b)" by auto
  from merge_update_entries [OF d, of ?a] obtain u where
    u: "merge_update (JObj ?a) body = JObj u"
    and l: "\<And>k. lookup u k = retrim k (if k \<in> set (map fst ?b) then lookup ?b k else lookup ?a k)"
    and k: "map fst u = map fst ?a @ filter (\<lambda>k. k \<notin> set (map fst ?a)) (map fst ?b)"
    by blast
  have "filter (\<lambda>k. k \<notin> set (map fst ?a)) (map fst ?b) = []"
    using sub by (auto simp: filter_empty_conv allowedKeys_def)
  with k have keys: "map fst u = [str ''id'', str ''name'', str ''price'', str ''inStock'']" by simp
  have idn: "str ''id'' \<notin> set (map fst ?b)"
    using sub by (auto simp: allowedKeys_def str_eq_iff)
  have l1: "lookup u (str ''id'') = v1"
    using l [of "str ''id''"] idn by (simp add: retrim_other str_eq_iff)
  have l2: "stored_name_rule (lookup u (str ''name''))"
  proof (cases "str ''name'' \<in> set (map fst ?b)")
    case True
    with n have "name_rule (lookup ?b (str ''name''))" by simp
    from name_rule_retrim [OF this] True show ?thesis by (simp add: l)
  next
    case False
    then have "lookup u (str ''name'') = retrim (str ''name'') v2" by (simp add: l str_eq_iff)
    with r(2) show ?thesis by (simp add: stored_name_retrim)
  qed
  have l3: "price_rule (lookup u (str ''price''))"
    using l [of "str ''price''"] p r(3) by (simp add: retrim_other str_eq_iff)
  have l4: "inStock_rule (lookup u (str ''inStock''))"
    using l [of "str ''inStock''"] s r(4) by (simp add: retrim_other str_eq_iff)
  have "valid_product (JObj u)" using keys l1 l2 l3 l4 r(1) by simp
  moreover have "product_id (JObj u) = product_id stored"
    by (simp add: product_id_def l1 st)
  ultimately show ?thesis by (simp only: st u)
qed

lemma put_products_files:
  "snd (put_products env files n body) = files
   \<or> (\<exists>products idx. readProducts env files = Inr products
        \<and> findIndex (has_id n) products = Some idx
        \<and> validateProductInput body True = Inr []
        \<and> snd (put_products env files n body) =
            snd (writeProducts env files (products[idx := merge_update (products ! idx) body])))"
proof (cases "invalid_id n")
  case True
  then have "snd (put_products env files n body) = files" by (simp add: put_products_def)
  then show ?thesis by (rule disjI1)
next
  case valid: False
  show ?thesis
  proof (cases "validateProductInput body True")
    case (Inl e)
    with valid have "snd (put_products env files n body) = files" by (simp add: put_products_def)
    then show ?thesis by (rule disjI1)
  next
    case (Inr errors)
    show ?thesis
    proof (cases "errors = []")
      case False
      with valid Inr have "snd (put_products env files n body) = files" by (simp add: put_products_def)
      then show ?thesis by (rule disjI1)
    next
      case True
      with Inr have v: "validateProductInput body True = Inr []" by simp
      show ?thesis
      proof (cases "readProducts env files")
        case (Inl err)
        with valid v have "snd (put_products env files n body) = files" by (simp add: put_products_def)
        then show ?thesis by (rule disjI1)
      next
        case r: (Inr products)
        show ?thesis
        proof (cases "findIndex (has_id n) products")
          case None
          with valid v r have "snd (put_products env files n body) = files"
            by (simp add: put_products_def)
          then show ?thesis by (rule disjI1)
        next
          case (Some idx)
          have "snd (put_products env files n body) =
              snd (writeProducts env files (products[idx := merge_update (products ! idx) body]))"
            using valid v r Some
            by (cases "writeProducts env files (products[idx := merge_update (products ! idx) body])";
                cases "fst (writeProducts env files (products[idx := merge_update (products ! idx) body]))")
              (simp_all add: put_products_def Let_def)
          with r Some v show ?thesis by (intro disjI2 exI [of _ products] exI [of _ idx] conjI)
        qed
      qed
    qed
  qed
qed

lemma delete_products_files:
  "snd (delete_products env files n) = files
   \<or> (\<exists>products. readProducts env files = Inr products
        \<and> snd (delete_products env files n) = snd (writeProducts env files (filter (keeps n) products)))"
proof (cases "invalid_id n")
  case True
  then have "snd (delete_products env files n) = files" by (simp add: delete_products_def)
  then show ?thesis by (rule disjI1)
next
  case valid: False
  show ?thesis
  proof (cases "readProducts env files")
    case (Inl err)
    with valid have "snd (delete_products env files n) = files" by (simp add: delete_products_def)
    then show ?thesis by (rule disjI1)
  next
    case r: (Inr products)
    show ?thesis
    proof (cases "length (filter (keeps n) products) = length products")
      case True
      with valid r have "snd (delete_products env files n) = files"
        by (simp add: delete_products_def)
      then show ?thesis by (rule disjI1)
    next
      case False
      have "snd (delete_products env files n) = snd (writeProducts env files (filter (keeps n) products))"
        using valid r False
        by (cases "writeProducts env files (filter (keeps n) products)";
            cases "fst (writeProducts env files (filter (keeps n) products))")
          (simp_all add: delete_products_def Let_def)
      with r show ?thesis by (intro disjI2 exI [of _ products] conjI)
    qed
  qed
qed

lemma collection_after_write:
  assumes "valid_collection products'"
  shows "collection (snd (writeProducts env files products')) = collection files
       \<or> collection (snd (writeProducts env files products')) = products'"
proof (cases "write_error env = None \<and> rename_error env = None")
  case True
  then have d: "data_file (snd (writeProducts env files products')) = Some (JSON_stringify (JArr products'))"
    by (simp add: writeProducts_data_file)
  from valid_collection_exact [OF assms] have "\<forall>p \<in> set products'. json_exact p" by blast
  from collection_written [OF this d] show ?thesis by (rule disjI2)
next
  case False
  then have "data_file (snd (writeProducts env files products')) = data_file files"
    by (auto simp: writeProducts_data_file)
  then show ?thesis by (intro disjI1 collection_cong)
qed

lemma valid_collection_update:
  assumes "valid_collection products" and "idx < length products"
    and "valid_product u" and "product_id u = product_id (products ! idx)"
  shows "valid_collection (products[idx := u])"
    and "map product_id (products[idx := u]) = map product_id products"
proof -
  show ids: "map product_id (products[idx := u]) = map product_id products"
    using assms(2,4) by (simp add: map_update list_update_same_conv)
  have "\<forall>p \<in> set (products[idx := u]). valid_product p"
  proof
    fix p assume "p \<in> set (products[idx := u])"
    then have "p \<in> insert u (set products)" using set_update_subset_insert by fast
    with assms(1,3) show "valid_product p" by (auto simp: valid_collection_def)
  qed
  with assms(1) ids show "valid_collection (products[idx := u])"
    by (simp add: valid_collection_def)
qed

lemma valid_collection_filter:
  assumes "valid_collection products"
  shows "valid_collection (filter P products)"
  using assms by (simp add: valid_collection_def distinct_map_filter)

lemma put_products_invariant:
  assumes "valid_collection (collection files)" and "wf_val body"
  shows "valid_collection (collection (snd (put_products env files n body)))
       \<and> map product_id (collection (snd (put_products env files n body))) =
           map product_id (collection files)"
  using put_products_files [of env files n body]
proof (elim disjE exE conjE)
  assume "snd (put_products env files n body) = files"
  with assms(1) show ?thesis by simp
next
  fix products idx
  assume r: "readProducts env files = Inr products"
    and f: "findIndex (has_id n) products = Some idx"
    and v: "validateProductInput body True = Inr []"
    and s: "snd (put_products env files n body) =
            snd (writeProducts env files (products[idx := merge_update (products ! idx) body]))"
  from findIndex_Some [OF f] have i: "idx < length products" by simp
  then have "products \<noteq> []" by auto
  with readProducts_collection [OF r] have c: "products = collection files" by simp
  with assms(1) have vc: "valid_collection products" by simp
  with i have "valid_product (products ! idx)" by (simp add: valid_collection_def)
  note m = merge_update_valid [OF this v assms(2)]
  note u = valid_collection_update [OF vc i m [THEN conjunct1] m [THEN conjunct2]]
  from collection_after_write [OF u(1), of env files] show ?thesis
  proof
    assume "collection (snd (writeProducts env files (products[idx := merge_update (products ! idx) body])))
        = collection files"
    with assms(1) s show ?thesis by simp
  next
    assume "collection (snd (writeProducts env files (products[idx := merge_update (products ! idx) body])))
        = products[idx := merge_update (products ! idx) body]"
    with u s c show ?thesis by simp
  qed
qed

lemma delete_products_invariant:
  assumes "valid_collection (collection files)"
  shows "valid_collection (collection (snd (delete_products env files n)))
       \<and> max_id (collection (snd (delete_products env files n))) \<le> max_id (collection files)"
  using delete_products_files [of env files n]
proof (elim disjE exE conjE)
  assume "snd (delete_products env files n) = files"
  with assms show ?thesis by simp
next
  fix products
  assume r: "readProducts env files = Inr products"
    and s: "snd (delete_products env files n) = snd (writeProducts env files (filter (keeps n) products))"
  from readProducts_collection [OF r] assms have "valid_collection products"
    by (auto simp: valid_collection_Nil)
  then have vf: "valid_collection (filter (keeps n) products)" by (rule valid_collection_filter)
  from readProducts_collection [OF r] have "max_id products \<le> max_id (collection files)"
    by (auto simp: max_id_Nil max_id_nonneg)
  with max_id_filter [of "keeps n" products]
  have mf: "max_id (filter (keeps n) products) \<le> max_id (collection files)" by simp
  from collection_after_write [OF vf, of env files] show ?thesis
  proof
    assume "collection (snd (writeProducts env files (filter (keeps n) products))) = collection files"
    with assms s show ?thesis by simp
  next
    assume "collection (snd (writeProducts env files (filter (keeps n) products))) = filter (keeps n) products"
    with vf mf s show ?thesis by simp
  qed
qed

lemma handle_invariant:
  assumes "valid_collection (collection files)" and "wf_request r"
    and "is_create r \<Longrightarrow> max_id (collection files) < 2 ^ 53"
  shows "valid_collection (collection (snd (handle env files r)))
       \<and> max_id (collection (snd (handle env files r)))
           \<le> max_id (collection files) + (if is_create r then 1 else 0)"
proof (cases r)
  case (Create body)
  with assms(3) have lt: "max_id (collection files) < 2 ^ 53" by simp
  from post_products_invariant [OF assms(1) lt, of env body] Create show ?thesis by simp
next
  case (Update n body)
  with assms(2) have w: "wf_val body" by simp
  note p = put_products_invariant [OF assms(1) w, of env n]
  from p have "max_id (collection (snd (put_products env files n body))) = max_id (collection files)"
    by (intro max_id_same_ids) (rule conjunct2)
  with p Update show ?thesis by simp
next
  case (Delete n)
  with delete_products_invariant [OF assms(1), of env n] show ?thesis by simp
qed

lemma creates_in_Cons:
  "creates_in (r # requests) = (if is_create (snd r) then Suc (creates_in requests) else creates_in requests)"
  by (simp add: creates_in_def)

lemma run_invariant:
  assumes "valid_collection (collection files)" and "\<forall>r \<in> set requests. wf_request (snd r)"
    and "max_id (collection files) + of_nat (creates_in requests) \<le> 2 ^ 53"
  shows "valid_collection (collection (run files requests))"
  using assms
proof (induction requests arbitrary: files)
  case Nil
  then show ?case by simp
next
  case (Cons r requests)
  let ?files = "snd (handle (fst r) files (snd r))"
  from Cons.prems(2) have w: "wf_request (snd r)"
    and ws: "\<forall>r \<in> set requests. wf_request (snd r)" by simp_all
  have lt: "max_id (collection files) < 2 ^ 53" if "is_create (snd r)"
    using Cons.prems(3) that by (simp add: creates_in_Cons)
  note h = handle_invariant [OF Cons.prems(1) w lt, of "fst r"]
  from h have v: "valid_collection (collection ?files)" by (rule conjunct1)
  from h have "max_id (collection ?files)
      \<le> max_id (collection files) + (if is_create (snd r) then 1 else 0)" by (rule conjunct2)
  with Cons.prems(3) have b: "max_id (collection ?files) + of_nat (creates_in requests) \<le> 2 ^ 53"
    by (simp add: creates_in_Cons split: if_splits)
  have "valid_collection (collection (run ?files requests))"
    by (rule Cons.IH [OF v ws b])
  then show ?case by simp
qed

lemma collection_fs_empty: "collection fs_empty = []"
  by (simp add: collection_data_file fs_empty_def)

lemma valid_product_iff:
  "valid_product p \<longleftrightarrow>
     (\<exists>i s x b. p = JObj [(str ''id'', JNum (Fin (of_int i))), (str ''name'', JStr s),
                          (str ''price'', JNum (Fin x)), (str ''inStock'', JBool b)]
        \<and> 0 < i \<and> s \<noteq> [] \<and> \<not> js_whitespace (hd s) \<and> \<not> js_whitespace (last s) \<and> 0 \<le> x)"
proof
  assume "valid_product p"
  then obtain v1 v2 v3 v4 where
    p: "p = JObj [(str ''id'', v1), (str ''name'', v2), (str ''price'', v3), (str ''inStock'', v4)]"
    and r: "id_rule v1" "stored_name_rule v2" "price_rule v3" "inStock_rule v4"
    by (rule valid_product_shape)
  from r(1) obtain y where y: "v1 = JNum (Fin y)" "of_int \<lfloor>y\<rfloor> = y" "0 < y"
    by (cases v1 rule: id_rule.cases) auto
  from r(2) obtain s where s: "v2 = JStr s" "s \<noteq> []" "\<not> js_whitespace (hd s)" "\<not> js_whitespace (last s)"
    by (cases v2) auto
  from r(3) obtain x where x: "v3 = JNum (Fin x)" "0 \<le> x"
    by (cases v3 rule: price_rule.cases) auto
  from r(4) obtain b where b: "v4 = JBool b" by (cases v4) auto
  define i where "i = \<lfloor>y\<rfloor>"
  have yi: "y = of_int i" unfolding i_def by (rule y(2) [symmetric])
  from y(3) have "0 < i" unfolding yi by simp
  with y(1) yi have "v1 = JNum (Fin (of_int i))" "0 < i" by simp_all
  with p s x b show "\<exists>i s x b. p = JObj [(str ''id'', JNum (Fin (of_int i))), (str ''name'', JStr s),
                          (str ''price'', JNum (Fin x)), (str ''inStock'', JBool b)]
        \<and> 0 < i \<and> s \<noteq> [] \<and> \<not> js_whitespace (hd s) \<and> \<not> js_whitespace (last s) \<and> 0 \<le> x"
    by blast
next
  assume "\<exists>i s x b. p = JObj [(str ''id'', JNum (Fin (of_int i))), (str ''name'', JStr s),
                          (str ''price'', JNum (Fin x)), (str ''inStock'', JBool b)]
        \<and> 0 < i \<and> s \<noteq> [] \<and> \<not> js_whitespace (hd s) \<and> \<not> js_whitespace (last s) \<and> 0 \<le> x"
  then show "valid_product p" by (auto simp: str_eq_iff)
qed

text \<open>
  The bound on the ids is sharp: on a collection that holds the id \<open>2^53\<close>, \<open>maxId + 1\<close>
  is rounded to \<open>2^53\<close>, and the create stores a second product with that id.
\<close>

lemma create_at_2_53_repeats_id:
  "created_id (fst (post_products no_faults
     \<lparr>data_file = Some (Encoded (JArr [JObj [(str ''id'', JNum (Fin (2 ^ 53)))]])), tmp_file = None\<rparr>
     body_A)) = JNum (Fin (2 ^ 53))
   \<and> map product_id (collection (snd (post_products no_faults
     \<lparr>data_file = Some (Encoded (JArr [JObj [(str ''id'', JNum (Fin (2 ^ 53)))]])), tmp_file = None\<rparr>
     body_A))) = [JNum (Fin (2 ^ 53)), JNum (Fin (2 ^ 53))]"
proof -
  have a: "js_add (Fin 9007199254740992) (Fin 1) = Fin 9007199254740992"
    using js_add_2_53 by simp
  show ?thesis
    by (simp add: post_products_def validateProductInput_def Object_keys_def
        allowedKeys_def push_if_def str_eq_iff readProducts_cases no_faults_def body_A_def
        writeProducts_def JSON_stringify_def trim_def js_whitespace_def str_def Let_def js_gt_def
        product_id_def collection_data_file a del: js_add.simps)
qed

text \<open>
  Claim C1. Starting from the empty collection, after any sequence of create, update and
  delete requests with at most \<open>2^53\<close> creates among them, whatever their responses and
  whatever the file system does to them, every product of the persisted collection has
  the keys \<open>id\<close>, \<open>name\<close>, \<open>price\<close> and \<open>inStock\<close> with a positive integer id, a non-empty
  name with no white space at either end, a finite non-negative price and a boolean
  \<open>inStock\<close>, and the ids of the collection are distinct. An update leaves the id of every
  product of the collection as it is. The bound is the range in which \<open>maxId + 1\<close> is
  exact: no id exceeds the number of creates, and from \<open>2^53\<close> on the sum is rounded
  (lemma \<open>js_add_2_53\<close>).
\<close>

theorem store_invariant:
  assumes "collection start = []" and "\<forall>r \<in> set requests. wf_request (snd r)"
    and "creates_in requests \<le> 2 ^ 53"
  shows "(\<forall>p \<in> set (collection (run start requests)). valid_product p)
       \<and> distinct (map product_id (collection (run start requests)))
       \<and> (wf_val body \<longrightarrow>
            map product_id (collection (snd (put_products env (run start requests) n body))) =
            map product_id (collection (run start requests)))"
proof -
  from assms(1) have vs: "valid_collection (collection start)" by (simp add: valid_collection_Nil)
  from assms(3) have "(of_nat (creates_in requests) :: rat) \<le> of_nat (2 ^ 53)"
    by (simp only: of_nat_le_iff)
  then have "(of_nat (creates_in requests) :: rat) \<le> 2 ^ 53" by simp
  then have b: "max_id (collection start) + of_nat (creates_in requests) \<le> 2 ^ 53"
    by (simp add: assms(1) max_id_Nil)
  have v: "valid_collection (collection (run start requests))"
    by (rule run_invariant [OF vs assms(2) b])
  then have "\<forall>p \<in> set (collection (run start requests)). valid_product p"
    and "distinct (map product_id (collection (run start requests)))"
    by (simp_all add: valid_collection_def)
  moreover have "wf_val body \<longrightarrow>
      map product_id (collection (snd (put_products env (run start requests) n body))) =
      map product_id (collection (run start requests))"
    using put_products_invariant [OF v] by blast
  ultimately show ?thesis by (intro conjI)
qed

lemma run_sample_requests:
  "collection (run fs_empty sample_requests) = [product_A7]"
  by (simp add: sample_requests_def post_products_def delete_products_def put_products_def
      validateProductInput_def Object_keys_def
      allowedKeys_def push_if_def str_eq_iff readProducts_cases no_faults_def fs_empty_def body_A_def
      writeProducts_def JSON_stringify_def trim_def js_whitespace_def str_def Let_def js_gt_def
      invalid_id_def js_le_def keeps_def has_id_def merge_update_def spread_def product_A7_def
      collection_data_file js_add_0_1 js_add_1_1 del: js_add.simps)

text \<open>
  The theorem at two creates, the delete of the second product and an update of the price
  of the first.
\<close>

theorem store_invariant_witness:
  "collection fs_empty = []
   \<and> wf_request (Create body_A) \<and> wf_request (Delete (Fin 2))
   \<and> wf_request (Update (Fin 1) (JObj [(str ''price'', JNum (Fin 7))]))
   \<and> creates_in sample_requests = 2
   \<and> wf_val (JObj [(str ''name'', JStr (str ''B''))])
   \<and> collection (run fs_empty sample_requests) = [product_A7]
   \<and> valid_product product_A7
   \<and> distinct (map product_id [product_A7])
   \<and> map product_id (collection (snd (put_products no_faults (run fs_empty sample_requests) (Fin 1)
        (JObj [(str ''name'', JStr (str ''B''))])))) = map product_id [product_A7]"
proof -
  have w: "wf_request (Create body_A)" "wf_request (Delete (Fin 2))"
    "wf_request (Update (Fin 1) (JObj [(str ''price'', JNum (Fin 7))]))"
    by (simp_all add: body_A_def str_eq_iff)
  have wb: "wf_val (JObj [(str ''name'', JStr (str ''B''))])"
    by simp
  from w have ws: "\<forall>r \<in> set sample_requests. wf_request (snd r)"
    by (simp add: sample_requests_def)
  have n: "creates_in sample_requests = 2"
    by (simp add: creates_in_def sample_requests_def)
  then have le: "creates_in sample_requests \<le> 2 ^ 53" by simp
  note c = collection_fs_empty
  note t = store_invariant [OF c ws le, of "JObj [(str ''name'', JStr (str ''B''))]" no_faults "Fin 1"]
  from t [THEN conjunct1] have v: "valid_product product_A7"
    by (simp add: run_sample_requests)
  from t [THEN conjunct2, THEN conjunct1] have d: "distinct (map product_id [product_A7])"
    by (simp only: run_sample_requests)
  from t [THEN conjunct2, THEN conjunct2] wb
  have u: "map product_id (collection (snd (put_products no_faults (run fs_empty sample_requests) (Fin 1)
        (JObj [(str ''name'', JStr (str ''B''))])))) = map product_id [product_A7]"
    by (simp only: run_sample_requests)
  from c w n wb run_sample_requests v d u show ?thesis by (intro conjI)
qed

end
